theory Spec2Isabelle
  imports Main
begin

section \<open>Tasks, bundles and queues\<close>

text \<open>
  The client pipeline of \<^verbatim>\<open>hypershell/client.py\<close>: three finite-state machines
  (scheduler, executor, collector), two bounded local queues, the three remote channels
  and the coordinating \<^verbatim>\<open>ClientThread\<close>.

  Exceptions of the source are values of \<open>error\<close>; a function that can raise returns
  \<open>error + 'a\<close> with \<open>Inl\<close> the exception.
\<close>

datatype error = IndexError | TypeError | AttributeError | OSError

text \<open>
  Modelled from the spec: the class \<^verbatim>\<open>Task\<close> of \<^verbatim>\<open>hypershell.database.model\<close>
  is not among the sources. The data model gives its fields: an identifier, a raw argument
  string, an optional rendered command, start and completion timestamps, an exit status
  (absent until completion) and a client host. Strings are byte strings (UTF-8), timestamps
  are instants counted in microseconds (the resolution of \<^verbatim>\<open>datetime\<close>).
\<close>

record Task =
  task_id :: string
  args :: string
  command :: "string option"
  start_time :: "int option"
  completion_time :: "int option"
  exit_status :: "int option"
  client_host :: "string option"

text \<open>
  Modelled from the spec: the task codec (\<^verbatim>\<open>Task.pack\<close>, \<^verbatim>\<open>Task.unpack\<close>) is
  owned by the server side; the client treats it as an opaque round trip.
\<close>

datatype packed = Packed Task

definition Task_pack :: "Task \<Rightarrow> packed" where
  "Task_pack t = Packed t"

fun Task_unpack :: "packed \<Rightarrow> Task" where
  "Task_unpack (Packed t) = t"

type_synonym task_bundle = "packed list"

text \<open>
  \<^verbatim>\<open>queue.Queue(maxsize)\<close>: a FIFO that is full when \<open>0 < maxsize \<le> qsize\<close>
  (a \<open>maxsize\<close> of zero or less means no bound). \<open>Queue_put\<close> and \<open>Queue_get\<close> are
  the calls with a timeout: \<open>None\<close> stands for \<^verbatim>\<open>queue.Full\<close> and \<^verbatim>\<open>queue.Empty\<close>.
\<close>

record 'a Queue =
  maxsize :: int
  items :: "'a list"

definition Queue_new :: "int \<Rightarrow> 'a Queue" where
  "Queue_new m = \<lparr>maxsize = m, items = []\<rparr>"

definition Queue_full :: "'a Queue \<Rightarrow> bool" where
  "Queue_full q = (0 < maxsize q \<and> maxsize q \<le> int (length (items q)))"

definition Queue_put :: "'a \<Rightarrow> 'a Queue \<Rightarrow> 'a Queue option" where
  "Queue_put x q = (if Queue_full q then None else Some (q\<lparr>items := items q @ [x]\<rparr>))"

definition Queue_get :: "'a Queue \<Rightarrow> ('a \<times> 'a Queue) option" where
  "Queue_get q = (case items q of [] \<Rightarrow> None | x # xs \<Rightarrow> Some (x, q\<lparr>items := xs\<rparr>))"

section \<open>Scheduler\<close>

datatype SchedulerState =
  Sched_START | Sched_GET_REMOTE | Sched_UNPACK | Sched_POP_TASK | Sched_PUT_LOCAL | Sched_HALT

text \<open>
  The attributes of \<^verbatim>\<open>ClientScheduler\<close>. \<open>sched_task\<close> is \<open>None\<close> while the
  attribute \<^verbatim>\<open>task\<close> is not yet assigned; \<open>sched_bundle\<close> is \<open>None\<close> once the
  disconnect sentinel has been received.
\<close>

record ClientScheduler =
  sched_state :: SchedulerState
  sched_bundle :: "task_bundle option"
  sched_tasks :: "Task list"
  sched_task :: "Task option"
  final_task_id :: "string option"

definition ClientScheduler_init :: ClientScheduler where
  "ClientScheduler_init =
     \<lparr>sched_state = Sched_START, sched_bundle = Some [], sched_tasks = [],
      sched_task = None, final_task_id = None\<rparr>"

definition ClientScheduler_start :: "ClientScheduler \<Rightarrow> ClientScheduler" where
  "ClientScheduler_start sc = sc\<lparr>sched_state := Sched_GET_REMOTE\<rparr>"

text \<open>
  \<^verbatim>\<open>get_remote\<close>: the argument is the content of the channel \<^verbatim>\<open>scheduled\<close>; an empty
  channel is the \<^verbatim>\<open>QueueEmpty\<close> timeout.
\<close>

definition ClientScheduler_get_remote ::
  "task_bundle option list \<Rightarrow> ClientScheduler \<Rightarrow> ClientScheduler \<times> task_bundle option list" where
  "ClientScheduler_get_remote scheduled sc =
     (case scheduled of
        [] \<Rightarrow> (sc\<lparr>sched_state := Sched_GET_REMOTE\<rparr>, scheduled)
      | m # rest \<Rightarrow>
          (sc\<lparr>sched_bundle := m,
              sched_state := (if m \<noteq> None then Sched_UNPACK else Sched_HALT)\<rparr>, rest))"

text \<open>
  \<^verbatim>\<open>unpack_bundle\<close>: \<^verbatim>\<open>self.tasks[-1]\<close> raises \<^verbatim>\<open>IndexError\<close> on an empty
  bundle, after \<^verbatim>\<open>self.tasks\<close> has been assigned.
\<close>

definition ClientScheduler_unpack_bundle :: "ClientScheduler \<Rightarrow> error + ClientScheduler" where
  "ClientScheduler_unpack_bundle sc =
     (case sched_bundle sc of
        None \<Rightarrow> Inl TypeError
      | Some b \<Rightarrow>
          (let ts = map Task_unpack b in
           if ts = [] then Inl IndexError
           else Inr (sc\<lparr>sched_tasks := ts, final_task_id := Some (task_id (last ts)),
                        sched_state := Sched_POP_TASK\<rparr>)))"

definition ClientScheduler_pop_task :: "ClientScheduler \<Rightarrow> ClientScheduler" where
  "ClientScheduler_pop_task sc =
     (case sched_tasks sc of
        [] \<Rightarrow> sc\<lparr>sched_state := Sched_GET_REMOTE\<rparr>
      | t # ts \<Rightarrow> sc\<lparr>sched_task := Some t, sched_tasks := ts, sched_state := Sched_PUT_LOCAL\<rparr>)"

definition ClientScheduler_put_local ::
  "Task option Queue \<Rightarrow> ClientScheduler \<Rightarrow> error + (ClientScheduler \<times> Task option Queue)" where
  "ClientScheduler_put_local local sc =
     (case sched_task sc of
        None \<Rightarrow> Inl AttributeError
      | Some t \<Rightarrow>
          (case Queue_put (Some t) local of
             Some local' \<Rightarrow> Inr (sc\<lparr>sched_state := Sched_POP_TASK\<rparr>, local')
           | None \<Rightarrow> Inr (sc\<lparr>sched_state := Sched_PUT_LOCAL\<rparr>, local)))"

text \<open>
  Modelled from the spec: the run loop of \<^verbatim>\<open>hypershell.core.fsm.StateMachine\<close> is not
  among the sources. A machine is a table from state to handler and a single-threaded loop
  that calls the handler of the current state and moves to the state it returns, until
  \<^verbatim>\<open>HALT\<close>. \<open>ClientScheduler_next\<close> is one turn of that loop.
\<close>

definition ClientScheduler_next ::
  "task_bundle option list \<Rightarrow> Task option Queue \<Rightarrow> ClientScheduler \<Rightarrow>
     error + (ClientScheduler \<times> task_bundle option list \<times> Task option Queue)" where
  "ClientScheduler_next scheduled local sc =
     (case sched_state sc of
        Sched_START \<Rightarrow> Inr (ClientScheduler_start sc, scheduled, local)
      | Sched_GET_REMOTE \<Rightarrow>
          (case ClientScheduler_get_remote scheduled sc of
             (sc', scheduled') \<Rightarrow> Inr (sc', scheduled', local))
      | Sched_UNPACK \<Rightarrow>
          (case ClientScheduler_unpack_bundle sc of
             Inl e \<Rightarrow> Inl e
           | Inr sc' \<Rightarrow> Inr (sc', scheduled, local))
      | Sched_POP_TASK \<Rightarrow> Inr (ClientScheduler_pop_task sc, scheduled, local)
      | Sched_PUT_LOCAL \<Rightarrow>
          (case ClientScheduler_put_local local sc of
             Inl e \<Rightarrow> Inl e
           | Inr (sc', local') \<Rightarrow> Inr (sc', scheduled, local'))
      | Sched_HALT \<Rightarrow> Inr (sc, scheduled, local))"

section \<open>Collector\<close>

datatype CollectorState =
  Coll_START | Coll_GET_LOCAL | Coll_CHECK_BUNDLE | Coll_PACK_BUNDLE | Coll_PUT_REMOTE
  | Coll_FINALIZE | Coll_HALT

text \<open>
  The attributes of \<^verbatim>\<open>ClientCollector\<close>. \<open>previous_send\<close> is \<open>None\<close> until
  \<^verbatim>\<open>start\<close> assigns it.
\<close>

record ClientCollector =
  coll_state :: CollectorState
  coll_tasks :: "Task list"
  coll_bundle :: task_bundle
  coll_bundlesize :: int
  coll_bundlewait :: int
  previous_send :: "int option"

definition ClientCollector_init :: "int \<Rightarrow> int \<Rightarrow> ClientCollector" where
  "ClientCollector_init bundlesize bundlewait =
     \<lparr>coll_state = Coll_START, coll_tasks = [], coll_bundle = [],
      coll_bundlesize = bundlesize, coll_bundlewait = bundlewait, previous_send = None\<rparr>"

text \<open>In the collector, \<open>now\<close> is the reading of \<^verbatim>\<open>datetime.now()\<close> in the step.\<close>

definition ClientCollector_start :: "int \<Rightarrow> ClientCollector \<Rightarrow> ClientCollector" where
  "ClientCollector_start now c = c\<lparr>previous_send := Some now, coll_state := Coll_GET_LOCAL\<rparr>"

definition ClientCollector_get_local ::
  "Task option Queue \<Rightarrow> ClientCollector \<Rightarrow> ClientCollector \<times> Task option Queue" where
  "ClientCollector_get_local local c =
     (case Queue_get local of
        None \<Rightarrow> (c\<lparr>coll_state := Coll_CHECK_BUNDLE\<rparr>, local)
      | Some (Some t, local') \<Rightarrow>
          (c\<lparr>coll_tasks := coll_tasks c @ [t], coll_state := Coll_CHECK_BUNDLE\<rparr>, local')
      | Some (None, local') \<Rightarrow> (c\<lparr>coll_state := Coll_FINALIZE\<rparr>, local'))"

text \<open>
  \<^verbatim>\<open>check_bundle\<close>: \<^verbatim>\<open>total_seconds()\<close> of the elapsed time is compared with
  \<^verbatim>\<open>bundlewait\<close> seconds; with instants in microseconds the comparison is against
  \<open>bundlewait * 1000000\<close>.
\<close>

definition ClientCollector_check_bundle :: "int \<Rightarrow> ClientCollector \<Rightarrow> error + ClientCollector" where
  "ClientCollector_check_bundle now c =
     (case previous_send c of
        None \<Rightarrow> Inl AttributeError
      | Some prev \<Rightarrow>
          (let wait_time = now - prev in
           if int (length (coll_tasks c)) \<ge> coll_bundlesize c
           then Inr (c\<lparr>coll_state := Coll_PACK_BUNDLE\<rparr>)
           else if wait_time \<ge> coll_bundlewait c * 1000000
           then Inr (c\<lparr>coll_state := Coll_PACK_BUNDLE\<rparr>)
           else Inr (c\<lparr>coll_state := Coll_GET_LOCAL\<rparr>)))"

definition ClientCollector_pack_bundle :: "ClientCollector \<Rightarrow> ClientCollector" where
  "ClientCollector_pack_bundle c =
     c\<lparr>coll_bundle := map Task_pack (coll_tasks c), coll_state := Coll_PUT_REMOTE\<rparr>"

text \<open>
  \<^verbatim>\<open>put_remote\<close>: the second argument is the channel \<^verbatim>\<open>completed\<close>; the server
  gets the bundle as it is at the \<^verbatim>\<open>put\<close>, before it is cleared.
\<close>

definition ClientCollector_put_remote ::
  "int \<Rightarrow> task_bundle list \<Rightarrow> ClientCollector \<Rightarrow> ClientCollector \<times> task_bundle list" where
  "ClientCollector_put_remote now completed c =
     (if coll_bundle c \<noteq> []
      then (c\<lparr>coll_tasks := [], coll_bundle := [], previous_send := Some now,
              coll_state := Coll_GET_LOCAL\<rparr>, completed @ [coll_bundle c])
      else (c\<lparr>coll_state := Coll_GET_LOCAL\<rparr>, completed))"

definition ClientCollector_finalize ::
  "int \<Rightarrow> task_bundle list \<Rightarrow> ClientCollector \<Rightarrow> ClientCollector \<times> task_bundle list" where
  "ClientCollector_finalize now completed c =
     (case ClientCollector_put_remote now completed c of
        (c', completed') \<Rightarrow> (c'\<lparr>coll_state := Coll_HALT\<rparr>, completed'))"

definition ClientCollector_next ::
  "int \<Rightarrow> Task option Queue \<Rightarrow> task_bundle list \<Rightarrow> ClientCollector \<Rightarrow>
     error + (ClientCollector \<times> Task option Queue \<times> task_bundle list)" where
  "ClientCollector_next now local completed c =
     (case coll_state c of
        Coll_START \<Rightarrow> Inr (ClientCollector_start now c, local, completed)
      | Coll_GET_LOCAL \<Rightarrow>
          (case ClientCollector_get_local local c of
             (c', local') \<Rightarrow> Inr (c', local', completed))
      | Coll_CHECK_BUNDLE \<Rightarrow>
          (case ClientCollector_check_bundle now c of
             Inl e \<Rightarrow> Inl e
           | Inr c' \<Rightarrow> Inr (c', local, completed))
      | Coll_PACK_BUNDLE \<Rightarrow> Inr (ClientCollector_pack_bundle c, local, completed)
      | Coll_PUT_REMOTE \<Rightarrow>
          (case ClientCollector_put_remote now completed c of
             (c', completed') \<Rightarrow> Inr (c', local, completed'))
      | Coll_FINALIZE \<Rightarrow>
          (case ClientCollector_finalize now completed c of
             (c', completed') \<Rightarrow> Inr (c', local, completed'))
      | Coll_HALT \<Rightarrow> Inr (c, local, completed))"

section \<open>Executor\<close>

text \<open>
  \<^verbatim>\<open>str.replace(old, new)\<close>: every non-overlapping occurrence of \<open>old\<close>, found from
  the left, is replaced; with an empty \<open>old\<close> the replacement is put before every
  character and at the end.
\<close>

function str_replace :: "string \<Rightarrow> string \<Rightarrow> string \<Rightarrow> string" where
  "str_replace [] old new = (if old = [] then new else [])"
| "str_replace (c # cs) old new =
     (if old = [] then new @ c # str_replace cs old new
      else if take (length old) (c # cs) = old
      then new @ str_replace (drop (length old) (c # cs)) old new
      else c # str_replace cs old new)"
  by pat_completeness auto
termination
  by (relation "measure (\<lambda>(s, old, new). length s)") auto

datatype TaskState =
  Task_START | Task_GET_LOCAL | Task_START_TASK | Task_WAIT_TASK | Task_PUT_LOCAL
  | Task_FINALIZE | Task_HALT

text \<open>
  What \<^verbatim>\<open>Popen\<close> is given: the command line handed to the shell and the two variables
  added to the environment.
\<close>

record Popen =
  popen_args :: string
  popen_TASK_ID :: string
  popen_TASK_ARGS :: string

text \<open>
  The attributes of \<^verbatim>\<open>TaskExecutor\<close>; \<open>exec_task\<close> and \<open>exec_process\<close> are
  \<open>None\<close> while the attribute is not yet assigned, and \<open>exec_task\<close> is \<open>None\<close> again
  when the sentinel has been taken off the queue.
\<close>

record TaskExecutor =
  exec_id :: int
  exec_template :: string
  exec_state :: TaskState
  exec_task :: "Task option"
  exec_process :: "Popen option"

definition TaskExecutor_init :: "int \<Rightarrow> string \<Rightarrow> TaskExecutor" where
  "TaskExecutor_init i template =
     \<lparr>exec_id = i, exec_template = template, exec_state = Task_START,
      exec_task = None, exec_process = None\<rparr>"

definition TaskExecutor_start :: "TaskExecutor \<Rightarrow> TaskExecutor" where
  "TaskExecutor_start ex = ex\<lparr>exec_state := Task_GET_LOCAL\<rparr>"

text \<open>
  \<^verbatim>\<open>get_local\<close>: a task object is true, the sentinel \<^verbatim>\<open>None\<close> is false.
\<close>

definition TaskExecutor_get_local ::
  "Task option Queue \<Rightarrow> TaskExecutor \<Rightarrow> TaskExecutor \<times> Task option Queue" where
  "TaskExecutor_get_local inbound ex =
     (case Queue_get inbound of
        None \<Rightarrow> (ex\<lparr>exec_state := Task_GET_LOCAL\<rparr>, inbound)
      | Some (x, inbound') \<Rightarrow>
          (ex\<lparr>exec_task := x,
              exec_state := (if x \<noteq> None then Task_START_TASK else Task_FINALIZE)\<rparr>, inbound'))"

text \<open>
  \<^verbatim>\<open>start_task\<close>: \<open>hostname\<close> is the module constant \<^verbatim>\<open>HOSTNAME\<close>, \<open>now\<close> the
  reading of the clock, and \<open>spawned\<close> tells whether \<^verbatim>\<open>Popen\<close> returned a process
  (it raises \<^verbatim>\<open>OSError\<close> otherwise, which \<^verbatim>\<open>start_task\<close> does not catch).
\<close>

definition TaskExecutor_start_task ::
  "string \<Rightarrow> int \<Rightarrow> bool \<Rightarrow> TaskExecutor \<Rightarrow> error + TaskExecutor" where
  "TaskExecutor_start_task hostname now spawned ex =
     (case exec_task ex of
        None \<Rightarrow> Inl AttributeError
      | Some t \<Rightarrow>
          (let t' = t\<lparr>command := Some (str_replace (exec_template ex) ''{}'' (args t)),
                       start_time := Some now, client_host := Some hostname\<rparr>
           in if spawned
              then Inr (ex\<lparr>exec_task := Some t',
                           exec_process := Some \<lparr>popen_args = str_replace (exec_template ex) ''{}'' (args t),
                                                  popen_TASK_ID = task_id t, popen_TASK_ARGS = args t\<rparr>,
                           exec_state := Task_WAIT_TASK\<rparr>)
              else Inl OSError))"

text \<open>
  \<^verbatim>\<open>wait_task\<close>: \<open>waited\<close> is what \<^verbatim>\<open>process.wait(timeout=2)\<close> gives, \<open>None\<close>
  for \<^verbatim>\<open>TimeoutExpired\<close> and the exit status otherwise; the clock is read after it.
\<close>

definition TaskExecutor_wait_task ::
  "int \<Rightarrow> int option \<Rightarrow> TaskExecutor \<Rightarrow> error + TaskExecutor" where
  "TaskExecutor_wait_task now waited ex =
     (case exec_process ex of
        None \<Rightarrow> Inl AttributeError
      | Some p \<Rightarrow>
          (case waited of
             None \<Rightarrow> Inr (ex\<lparr>exec_state := Task_WAIT_TASK\<rparr>)
           | Some status \<Rightarrow>
               (case exec_task ex of
                  None \<Rightarrow> Inl AttributeError
                | Some t \<Rightarrow>
                    Inr (ex\<lparr>exec_task := Some (t\<lparr>exit_status := Some status,
                                                  completion_time := Some now\<rparr>),
                            exec_state := Task_PUT_LOCAL\<rparr>))))"

definition TaskExecutor_put_local ::
  "Task option Queue \<Rightarrow> TaskExecutor \<Rightarrow> TaskExecutor \<times> Task option Queue" where
  "TaskExecutor_put_local outbound ex =
     (case Queue_put (exec_task ex) outbound of
        Some outbound' \<Rightarrow> (ex\<lparr>exec_state := Task_GET_LOCAL\<rparr>, outbound')
      | None \<Rightarrow> (ex\<lparr>exec_state := Task_PUT_LOCAL\<rparr>, outbound))"

definition TaskExecutor_finalize :: "TaskExecutor \<Rightarrow> TaskExecutor" where
  "TaskExecutor_finalize ex = ex\<lparr>exec_state := Task_HALT\<rparr>"

definition TaskExecutor_next ::
  "string \<Rightarrow> int \<Rightarrow> bool \<Rightarrow> int option \<Rightarrow> Task option Queue \<Rightarrow> Task option Queue \<Rightarrow>
     TaskExecutor \<Rightarrow> error + (TaskExecutor \<times> Task option Queue \<times> Task option Queue)" where
  "TaskExecutor_next hostname now spawned waited inbound outbound ex =
     (case exec_state ex of
        Task_START \<Rightarrow> Inr (TaskExecutor_start ex, inbound, outbound)
      | Task_GET_LOCAL \<Rightarrow>
          (case TaskExecutor_get_local inbound ex of
             (ex', inbound') \<Rightarrow> Inr (ex', inbound', outbound))
      | Task_START_TASK \<Rightarrow>
          (case TaskExecutor_start_task hostname now spawned ex of
             Inl e \<Rightarrow> Inl e
           | Inr ex' \<Rightarrow> Inr (ex', inbound, outbound))
      | Task_WAIT_TASK \<Rightarrow>
          (case TaskExecutor_wait_task now waited ex of
             Inl e \<Rightarrow> Inl e
           | Inr ex' \<Rightarrow> Inr (ex', inbound, outbound))
      | Task_PUT_LOCAL \<Rightarrow>
          (case TaskExecutor_put_local outbound ex of
             (ex', outbound') \<Rightarrow> Inr (ex', inbound, outbound'))
      | Task_FINALIZE \<Rightarrow> Inr (TaskExecutor_finalize ex, inbound, outbound)
      | Task_HALT \<Rightarrow> Inr (ex, inbound, outbound))"

section \<open>Client thread\<close>

text \<open>
  \<^verbatim>\<open>ClientThread\<close> owns the endpoint, the two local queues and the threads.
  Modelled from the spec: \<^verbatim>\<open>QueueClient\<close> (\<^verbatim>\<open>hypershell.core.queue\<close>) is not among
  the sources; the endpoint is its three channels. \<open>scheduled\<close> holds the messages the
  server has put and the scheduler has not yet taken (\<open>None\<close> is the disconnect sentinel),
  \<open>completed\<close> the bundles handed to the server, in order, and \<open>terminator\<close> the ids
  published (a string is its own UTF-8 encoding).

  \<open>position\<close> is the place the thread of \<^verbatim>\<open>ClientThread.run\<close> has reached; the two
  loops of \<^verbatim>\<open>wait_executors\<close> carry their index.
\<close>

datatype run_position =
  At_start_threads | At_wait_scheduler | At_wait_executors_put nat | At_wait_executors_join nat
  | At_wait_collector_put | At_wait_collector_join | At_register_final_task | At_stopped

record ClientThread =
  num_tasks :: int
  scheduled :: "task_bundle option list"
  completed :: "task_bundle list"
  terminator :: "string list"
  inbound :: "Task option Queue"
  outbound :: "Task option Queue"
  scheduler :: ClientScheduler
  collector :: ClientCollector
  executors :: "TaskExecutor list"
  position :: run_position

text \<open>
  \<^verbatim>\<open>ClientThread.__init__\<close>; the first argument is the module constant
  \<^verbatim>\<open>DEFAULT_BUNDLESIZE\<close> (\<^verbatim>\<open>default.client.bundlesize\<close>, whose value is not among the
  sources).
\<close>

definition ClientThread_init :: "int \<Rightarrow> int \<Rightarrow> int \<Rightarrow> int \<Rightarrow> string \<Rightarrow> ClientThread" where
  "ClientThread_init DEFAULT_BUNDLESIZE n bundlesize bundlewait template =
     \<lparr>num_tasks = n, scheduled = [], completed = [], terminator = [],
      inbound = Queue_new DEFAULT_BUNDLESIZE,
      outbound = Queue_new DEFAULT_BUNDLESIZE,
      scheduler = ClientScheduler_init,
      collector = ClientCollector_init bundlesize bundlewait,
      executors = map (\<lambda>count. TaskExecutor_init (int count + 1) template) [0..<nat n],
      position = At_start_threads\<rparr>"

definition start_threads :: "ClientThread \<Rightarrow> ClientThread" where
  "start_threads s = s\<lparr>position := At_wait_scheduler\<rparr>"

text \<open>
  Modelled from the spec: the class \<^verbatim>\<open>Thread\<close> of \<^verbatim>\<open>hypershell.core.thread\<close> is
  not among the sources. Each machine runs in a thread of its own, and the client thread
  awaits the termination of that thread: a \<^verbatim>\<open>join\<close> returns when the thread has ended,
  that is when its machine has reached \<^verbatim>\<open>HALT\<close>. Until then, and while a
  \<^verbatim>\<open>put\<close> without timeout finds its queue full, the client thread stays where it is.
\<close>

definition wait_scheduler :: "ClientThread \<Rightarrow> ClientThread" where
  "wait_scheduler s =
     (if sched_state (scheduler s) = Sched_HALT
      then s\<lparr>position := At_wait_executors_put 0\<rparr> else s)"

definition wait_executors_put :: "nat \<Rightarrow> ClientThread \<Rightarrow> ClientThread" where
  "wait_executors_put k s =
     (if k < length (executors s)
      then (case Queue_put None (inbound s) of
              None \<Rightarrow> s
            | Some q \<Rightarrow> s\<lparr>inbound := q, position := At_wait_executors_put (Suc k)\<rparr>)
      else s\<lparr>position := At_wait_executors_join 0\<rparr>)"

definition wait_executors_join :: "nat \<Rightarrow> ClientThread \<Rightarrow> ClientThread" where
  "wait_executors_join j s =
     (if j < length (executors s)
      then (if exec_state (executors s ! j) = Task_HALT
            then s\<lparr>position := At_wait_executors_join (Suc j)\<rparr> else s)
      else s\<lparr>position := At_wait_collector_put\<rparr>)"

definition wait_collector_put :: "ClientThread \<Rightarrow> ClientThread" where
  "wait_collector_put s =
     (case Queue_put None (outbound s) of
        None \<Rightarrow> s
      | Some q \<Rightarrow> s\<lparr>outbound := q, position := At_wait_collector_join\<rparr>)"

definition wait_collector_join :: "ClientThread \<Rightarrow> ClientThread" where
  "wait_collector_join s =
     (if coll_state (collector s) = Coll_HALT
      then s\<lparr>position := At_register_final_task\<rparr> else s)"

text \<open>
  \<^verbatim>\<open>register_final_task\<close>: \<^verbatim>\<open>final_task_id.encode()\<close> raises
  \<^verbatim>\<open>AttributeError\<close> when the id is still \<^verbatim>\<open>None\<close>.
\<close>

definition register_final_task :: "ClientThread \<Rightarrow> error + ClientThread" where
  "register_final_task s =
     (case final_task_id (scheduler s) of
        None \<Rightarrow> Inl AttributeError
      | Some i \<Rightarrow> Inr (s\<lparr>terminator := terminator s @ [i], position := At_stopped\<rparr>))"

text \<open>One step of the thread of \<^verbatim>\<open>ClientThread.run\<close>.\<close>

definition ClientThread_run :: "ClientThread \<Rightarrow> error + ClientThread" where
  "ClientThread_run s =
     (case position s of
        At_start_threads \<Rightarrow> Inr (start_threads s)
      | At_wait_scheduler \<Rightarrow> Inr (wait_scheduler s)
      | At_wait_executors_put k \<Rightarrow> Inr (wait_executors_put k s)
      | At_wait_executors_join j \<Rightarrow> Inr (wait_executors_join j s)
      | At_wait_collector_put \<Rightarrow> Inr (wait_collector_put s)
      | At_wait_collector_join \<Rightarrow> Inr (wait_collector_join s)
      | At_register_final_task \<Rightarrow> register_final_task s
      | At_stopped \<Rightarrow> Inr s)"

section \<open>Runs of the client\<close>

text \<open>
  The threads run interleaved. A run is a list of events: the server puts a message on
  \<^verbatim>\<open>scheduled\<close>, or one thread takes one step. An event of an executor or of the collector
  carries what the step reads from outside: the clock, whether \<^verbatim>\<open>Popen\<close> spawns, what
  \<^verbatim>\<open>process.wait\<close> gives. The machines step only once \<^verbatim>\<open>start_threads\<close> has run.
  An exception that leaves a handler ends the run with that exception.
\<close>

datatype event =
  Server_put "task_bundle option"
  | Scheduler_turn
  | Executor_turn nat int bool "int option"
  | Collector_turn int
  | Client_turn

fun turn :: "string \<Rightarrow> event \<Rightarrow> ClientThread \<Rightarrow> error + ClientThread" where
  "turn hostname (Server_put m) s = Inr (s\<lparr>scheduled := scheduled s @ [m]\<rparr>)"
| "turn hostname Scheduler_turn s =
     (if position s = At_start_threads then Inr s
      else (case ClientScheduler_next (scheduled s) (inbound s) (scheduler s) of
              Inl e \<Rightarrow> Inl e
            | Inr (sc, ch, q) \<Rightarrow> Inr (s\<lparr>scheduler := sc, scheduled := ch, inbound := q\<rparr>)))"
| "turn hostname (Executor_turn i now spawned waited) s =
     (if position s = At_start_threads \<or> \<not> i < length (executors s) then Inr s
      else (case TaskExecutor_next hostname now spawned waited (inbound s) (outbound s)
                   (executors s ! i) of
              Inl e \<Rightarrow> Inl e
            | Inr (ex, qi, qo) \<Rightarrow>
                Inr (s\<lparr>executors := (executors s)[i := ex], inbound := qi, outbound := qo\<rparr>)))"
| "turn hostname (Collector_turn now) s =
     (if position s = At_start_threads then Inr s
      else (case ClientCollector_next now (outbound s) (completed s) (collector s) of
              Inl e \<Rightarrow> Inl e
            | Inr (c, q, cs) \<Rightarrow> Inr (s\<lparr>collector := c, outbound := q, completed := cs\<rparr>)))"
| "turn hostname Client_turn s = ClientThread_run s"

fun turns :: "string \<Rightarrow> event list \<Rightarrow> ClientThread \<Rightarrow> error + ClientThread" where
  "turns hostname [] s = Inr s"
| "turns hostname (e # es) s =
     (case turn hostname e s of Inl x \<Rightarrow> Inl x | Inr s' \<Rightarrow> turns hostname es s')"

text \<open>
  Turns of the collector's loop alone, one for each reading of the clock in the list, on
  the queue \<^verbatim>\<open>outbound\<close> and the channel \<^verbatim>\<open>completed\<close> as they stand.
\<close>

fun ClientCollector_run ::
  "int list \<Rightarrow> Task option Queue \<Rightarrow> task_bundle list \<Rightarrow> ClientCollector \<Rightarrow>
     error + (ClientCollector \<times> Task option Queue \<times> task_bundle list)" where
  "ClientCollector_run [] local cs c = Inr (c, local, cs)"
| "ClientCollector_run (now # rest) local cs c =
     (case ClientCollector_next now local cs c of
        Inl e \<Rightarrow> Inl e
      | Inr (c', local', cs') \<Rightarrow> ClientCollector_run rest local' cs' c')"

text \<open>A task as the server sends it: the id and the arguments, nothing else set.\<close>

definition Task_new :: "string \<Rightarrow> string \<Rightarrow> Task" where
  "Task_new i a =
     \<lparr>task_id = i, args = a, command = None, start_time = None, completion_time = None,
      exit_status = None, client_host = None\<rparr>"

text \<open>
  The places where \<open>old\<close> occurs in \<open>s\<close>, from the left (what repeated
  \<^verbatim>\<open>str.find\<close> would give).
\<close>

definition occurrences :: "string \<Rightarrow> string \<Rightarrow> nat list" where
  "occurrences s old = filter (\<lambda>i. take (length old) (drop i s) = old) [0..<length s]"

text \<open>
  A whole run of a client with one executor, \<^verbatim>\<open>bundlesize\<close> 3 and
  \<^verbatim>\<open>bundlewait\<close> 3600: the server sends the bundle \<open>[t1]\<close> and then the
  disconnect sentinel; the task runs from instant 10 to instant 20 and exits with status 0;
  every thread runs to its end.
\<close>

definition one_task_run :: "event list" where
  "one_task_run =
     [Client_turn, Server_put (Some [Packed (Task_new ''t1'' ''true'')]), Server_put None,
      Scheduler_turn, Scheduler_turn, Scheduler_turn, Scheduler_turn, Scheduler_turn,
      Scheduler_turn, Scheduler_turn,
      Executor_turn 0 5 True None, Executor_turn 0 6 True None, Executor_turn 0 10 True None,
      Executor_turn 0 20 True (Some 0), Executor_turn 0 21 True None,
      Collector_turn 0, Collector_turn 25, Collector_turn 30,
      Client_turn, Client_turn, Client_turn,
      Executor_turn 0 40 True None, Executor_turn 0 41 True None,
      Client_turn, Client_turn, Client_turn,
      Collector_turn 50, Collector_turn 51,
      Client_turn, Client_turn]"



text \<open>The state in which \<open>one_task_run\<close> ends on the host \<open>node1\<close>.\<close>

definition one_task_end :: ClientThread where
  "one_task_end =
     \<lparr>num_tasks = 1, scheduled = [], completed = [], terminator = [''t1''],
      inbound = \<lparr>maxsize = 1, items = []\<rparr>,
      outbound = \<lparr>maxsize = 1, items = []\<rparr>,
      scheduler =
        \<lparr>sched_state = Sched_HALT, sched_bundle = None, sched_tasks = [],
         sched_task = Some (Task_new ''t1'' ''true''), final_task_id = Some ''t1''\<rparr>,
      collector =
        \<lparr>coll_state = Coll_HALT,
         coll_tasks =
           [\<lparr>task_id = ''t1'', args = ''true'', command = Some ''true'',
             start_time = Some 10, completion_time = Some 20,
             exit_status = Some 0, client_host = Some ''node1''\<rparr>],
         coll_bundle = [], coll_bundlesize = 3, coll_bundlewait = 3600,
         previous_send = Some 0\<rparr>,
      executors =
        [\<lparr>exec_id = 1, exec_template = ''{}'', exec_state = Task_HALT, exec_task = None,
          exec_process =
            Some \<lparr>popen_args = ''true'', popen_TASK_ID = ''t1'', popen_TASK_ARGS = ''true''\<rparr>\<rparr>],
      position = At_stopped\<rparr>"

section \<open>Shutdown: what each place of the client thread guarantees\<close>

text \<open>
  The places of \<^verbatim>\<open>ClientThread.run\<close> after \<^verbatim>\<open>wait_scheduler\<close>, after the sentinel
  has been put on \<^verbatim>\<open>outbound\<close>, and after \<^verbatim>\<open>wait_collector\<close>.
\<close>

definition past_wait_scheduler :: "run_position \<Rightarrow> bool" where
  "past_wait_scheduler p = (p \<noteq> At_start_threads \<and> p \<noteq> At_wait_scheduler)"

definition past_collector_put :: "run_position \<Rightarrow> bool" where
  "past_collector_put p =
     (p = At_wait_collector_join \<or> p = At_register_final_task \<or> p = At_stopped)"

definition past_wait_collector :: "run_position \<Rightarrow> bool" where
  "past_wait_collector p = (p = At_register_final_task \<or> p = At_stopped)"

text \<open>
  With \<open>n\<close> executors: how many of them the client thread has joined at a place, and how
  many sentinels it has put on \<^verbatim>\<open>inbound\<close>.
\<close>

fun joined :: "run_position \<Rightarrow> nat \<Rightarrow> nat" where
  "joined At_start_threads n = 0"
| "joined At_wait_scheduler n = 0"
| "joined (At_wait_executors_put k) n = 0"
| "joined (At_wait_executors_join j) n = min j n"
| "joined At_wait_collector_put n = n"
| "joined At_wait_collector_join n = n"
| "joined At_register_final_task n = n"
| "joined At_stopped n = n"

fun injected :: "run_position \<Rightarrow> nat \<Rightarrow> nat" where
  "injected At_start_threads n = 0"
| "injected At_wait_scheduler n = 0"
| "injected (At_wait_executors_put k) n = k"
| "injected (At_wait_executors_join j) n = n"
| "injected At_wait_collector_put n = n"
| "injected At_wait_collector_join n = n"
| "injected At_register_final_task n = n"
| "injected At_stopped n = n"

text \<open>
  An executor is working while it holds a task to run or to return; it is finalized once it
  has taken a sentinel. The collector is finalizing once it has taken the sentinel.
  \<open>sentinels\<close> counts the sentinels waiting in a queue.
\<close>

definition working :: "TaskExecutor \<Rightarrow> bool" where
  "working ex = (exec_state ex = Task_START_TASK \<or> exec_state ex = Task_WAIT_TASK
                  \<or> exec_state ex = Task_PUT_LOCAL)"

definition finalized :: "TaskExecutor \<Rightarrow> bool" where
  "finalized ex = (exec_state ex = Task_FINALIZE \<or> exec_state ex = Task_HALT)"

definition finalizing :: "ClientCollector \<Rightarrow> bool" where
  "finalizing c = (coll_state c = Coll_FINALIZE \<or> coll_state c = Coll_HALT)"

definition sentinels :: "'a option Queue \<Rightarrow> nat" where
  "sentinels q = length (filter (\<lambda>x. x = None) (items q))"

text \<open>The invariants of a run that the shutdown order rests on.\<close>

definition scheduler_awaited :: "ClientThread \<Rightarrow> bool" where
  "scheduler_awaited s =
     (past_wait_scheduler (position s) \<longrightarrow> sched_state (scheduler s) = Sched_HALT)"

definition executors_awaited :: "ClientThread \<Rightarrow> bool" where
  "executors_awaited s =
     (\<forall>i < joined (position s) (length (executors s)).
        exec_state (executors s ! i) = Task_HALT)"

definition collector_awaited :: "ClientThread \<Rightarrow> bool" where
  "collector_awaited s =
     (past_wait_collector (position s) \<longrightarrow> coll_state (collector s) = Coll_HALT)"

definition terminator_last :: "ClientThread \<Rightarrow> bool" where
  "terminator_last s = (terminator s \<noteq> [] \<longrightarrow> position s = At_stopped)"

definition executors_hold_tasks :: "ClientThread \<Rightarrow> bool" where
  "executors_hold_tasks s = (\<forall>ex \<in> set (executors s). working ex \<longrightarrow> exec_task ex \<noteq> None)"

definition outbound_sentinel :: "ClientThread \<Rightarrow> bool" where
  "outbound_sentinel s =
     (if past_collector_put (position s)
      then (if finalizing (collector s) then items (outbound s) = []
            else (\<exists>xs. items (outbound s) = xs @ [None] \<and> None \<notin> set xs))
      else None \<notin> set (items (outbound s)) \<and> \<not> finalizing (collector s))"

definition inbound_sentinels :: "ClientThread \<Rightarrow> bool" where
  "inbound_sentinels s =
     (sentinels (inbound s) + length (filter finalized (executors s))
        = injected (position s) (length (executors s))
      \<and> (\<forall>k. position s = At_wait_executors_put k \<longrightarrow> k \<le> length (executors s)))"

definition shutdown_invariant :: "ClientThread \<Rightarrow> bool" where
  "shutdown_invariant s =
     (scheduler_awaited s \<and> executors_awaited s \<and> collector_awaited s \<and> terminator_last s
      \<and> executors_hold_tasks s \<and> outbound_sentinel s \<and> inbound_sentinels s)"

section \<open>What the scheduler has received\<close>

text \<open>
  The messages the server has put on \<^verbatim>\<open>scheduled\<close> in a run, and those of them the
  scheduler has taken off the channel (all but the ones still waiting there).
\<close>

fun server_sent :: "event list \<Rightarrow> task_bundle option list" where
  "server_sent [] = []"
| "server_sent (Server_put m # es) = m # server_sent es"
| "server_sent (e # es) = server_sent es"

definition received :: "event list \<Rightarrow> ClientThread \<Rightarrow> task_bundle option list" where
  "received evs s = take (length (server_sent evs) - length (scheduled s)) (server_sent evs)"

text \<open>
  The bundles among the messages, and the id of the last task of the last of them (none
  when there is no bundle, or when that bundle is empty).
\<close>

fun non_null :: "'a option list \<Rightarrow> 'a list" where
  "non_null [] = []"
| "non_null (None # ms) = non_null ms"
| "non_null (Some b # ms) = b # non_null ms"

definition terminal_id :: "task_bundle option list \<Rightarrow> string option" where
  "terminal_id msgs =
     (case rev (non_null msgs) of
        [] \<Rightarrow> None
      | b # _ \<Rightarrow> (case rev b of [] \<Rightarrow> None | p # _ \<Rightarrow> Some (task_id (Task_unpack p))))"

text \<open>
  What the scheduler's attributes say about the messages \<open>rcv\<close> it has received: the
  sentinel has come last and only when it has halted, every bundle unpacked so far had a
  task, and \<open>final_task_id\<close> is the terminal id of the bundles unpacked so far (all but
  the last message while that one waits in \<^verbatim>\<open>UNPACK\<close>).
\<close>

definition scheduler_has_seen :: "task_bundle option list \<Rightarrow> ClientScheduler \<Rightarrow> bool" where
  "scheduler_has_seen rcv sc =
     (case sched_state sc of
        Sched_UNPACK \<Rightarrow>
          rcv \<noteq> [] \<and> last rcv = sched_bundle sc \<and> sched_bundle sc \<noteq> None
          \<and> None \<notin> set (butlast rcv) \<and> [] \<notin> set (non_null (butlast rcv))
          \<and> final_task_id sc = terminal_id (butlast rcv)
      | Sched_HALT \<Rightarrow>
          rcv \<noteq> [] \<and> last rcv = None
          \<and> None \<notin> set (butlast rcv) \<and> [] \<notin> set (non_null (butlast rcv))
          \<and> final_task_id sc = terminal_id (butlast rcv)
      | _ \<Rightarrow> None \<notin> set rcv \<and> [] \<notin> set (non_null rcv) \<and> final_task_id sc = terminal_id rcv)"

definition delivered :: "task_bundle option list \<Rightarrow> ClientThread \<Rightarrow> bool" where
  "delivered sent s =
     (\<exists>rcv. sent = rcv @ scheduled s \<and> scheduler_has_seen rcv (scheduler s))"

definition terminator_is_final_id :: "ClientThread \<Rightarrow> bool" where
  "terminator_is_final_id s =
     (terminator s = [] \<or> map Some (terminator s) = [final_task_id (scheduler s)])"

text \<open>
  A run in which the server sends the disconnect sentinel at once: every thread runs to its
  end and the client thread arrives at \<^verbatim>\<open>register_final_task\<close>.
\<close>

definition disconnect_first_run :: "event list" where
  "disconnect_first_run =
     [Client_turn, Server_put None, Scheduler_turn, Scheduler_turn,
      Client_turn, Client_turn, Client_turn,
      Executor_turn 0 1 True None, Executor_turn 0 2 True None, Executor_turn 0 3 True None,
      Client_turn, Client_turn, Client_turn,
      Collector_turn 4, Collector_turn 5, Collector_turn 6,
      Client_turn]"

section \<open>What has been on the inbound queue\<close>

text \<open>
  What the executors have taken off \<^verbatim>\<open>inbound\<close>: in one turn, what stood at the head
  of the queue before the turn and no longer after it; in a run, these in order.
\<close>

fun taken_in_turn :: "event \<Rightarrow> ClientThread \<Rightarrow> ClientThread \<Rightarrow> Task option list" where
  "taken_in_turn (Executor_turn i now spawned waited) s s' =
     take (length (items (inbound s)) - length (items (inbound s'))) (items (inbound s))"
| "taken_in_turn e s s' = []"

fun inbound_taken :: "string \<Rightarrow> event list \<Rightarrow> ClientThread \<Rightarrow> Task option list" where
  "inbound_taken hostname [] s = []"
| "inbound_taken hostname (e # es) s =
     (case turn hostname e s of
        Inl x \<Rightarrow> []
      | Inr s' \<Rightarrow> taken_in_turn e s s' @ inbound_taken hostname es s')"

text \<open>
  The tasks the scheduler has received and not yet put on \<^verbatim>\<open>inbound\<close>: the bundle
  waiting in \<^verbatim>\<open>UNPACK\<close>, or the task held in \<^verbatim>\<open>PUT_LOCAL\<close> and the tasks still to
  be popped. \<open>forwarded\<close> says that the tasks that have been on \<^verbatim>\<open>inbound\<close>, taken
  or waiting, followed by those, are the tasks of the bundles received, in order.
\<close>

definition not_yet_put :: "ClientScheduler \<Rightarrow> Task list" where
  "not_yet_put sc =
     (case sched_state sc of
        Sched_UNPACK \<Rightarrow> (case sched_bundle sc of Some b \<Rightarrow> map Task_unpack b | None \<Rightarrow> [])
      | Sched_POP_TASK \<Rightarrow> sched_tasks sc
      | Sched_PUT_LOCAL \<Rightarrow> (case sched_task sc of Some t \<Rightarrow> [t] | None \<Rightarrow> []) @ sched_tasks sc
      | _ \<Rightarrow> [])"

definition forwarded :: "task_bundle option list \<Rightarrow> Task option list \<Rightarrow> ClientThread \<Rightarrow> bool" where
  "forwarded sent taken s =
     (\<exists>rcv. sent = rcv @ scheduled s
        \<and> non_null (taken @ items (inbound s)) @ not_yet_put (scheduler s)
            = concat (map (map Task_unpack) (non_null rcv)))"

text \<open>
  A run with a queue of capacity 1: the server sends the bundle \<open>[t1, t2]\<close>; the
  scheduler puts \<open>t1\<close> and finds the queue full for \<open>t2\<close>, twice; the executor takes
  \<open>t1\<close>; the scheduler then puts \<open>t2\<close>.
\<close>

definition backpressure_run :: "event list" where
  "backpressure_run =
     [Client_turn,
      Server_put (Some [Packed (Task_new ''t1'' ''true''), Packed (Task_new ''t2'' ''false'')]),
      Scheduler_turn, Scheduler_turn, Scheduler_turn, Scheduler_turn, Scheduler_turn,
      Scheduler_turn, Scheduler_turn, Scheduler_turn,
      Executor_turn 0 1 True None, Executor_turn 0 2 True None,
      Scheduler_turn, Scheduler_turn]"

section \<open>Timestamps\<close>





section \<open>The collector's flush policy\<close>

lemmas collector_defs =
  ClientCollector_next_def ClientCollector_start_def ClientCollector_get_local_def
  ClientCollector_check_bundle_def ClientCollector_pack_bundle_def
  ClientCollector_put_remote_def ClientCollector_finalize_def

lemma check_bundle_value:
  assumes "previous_send c = Some prev"
  shows "ClientCollector_check_bundle now c =
     Inr (c\<lparr>coll_state :=
        (if coll_bundlesize c \<le> int (length (coll_tasks c)) \<or>
            coll_bundlewait c * 1000000 \<le> now - prev
         then Coll_PACK_BUNDLE else Coll_GET_LOCAL)\<rparr>)"
  using assms by (simp add: ClientCollector_check_bundle_def Let_def)

lemma previous_send_frame:
  assumes "ClientCollector_next now q cs c = Inr (c', q', cs')"
      and "previous_send c' \<noteq> previous_send c"
  shows "previous_send c' = Some now \<and>
     (coll_state c = Coll_START \<or>
      (coll_state c = Coll_PUT_REMOTE \<or> coll_state c = Coll_FINALIZE) \<and> coll_bundle c \<noteq> [] \<and>
       cs' = cs @ [coll_bundle c])"
  using assms
  by (cases "coll_state c")
     (auto simp: collector_defs Let_def
        split: option.splits list.splits if_splits prod.splits sum.splits)

lemma threshold_flush:
  assumes "coll_state c = Coll_GET_LOCAL" and "previous_send c = Some prev"
      and "items local = Some t # rest"
      and "int (length (coll_tasks c)) + 1 = coll_bundlesize c"
  shows "ClientCollector_run [n1, n2, n3, n4] local cs c =
     Inr (c\<lparr>coll_tasks := [], coll_bundle := [], previous_send := Some n4\<rparr>,
          local\<lparr>items := rest\<rparr>, cs @ [map Task_pack (coll_tasks c @ [t])])"
  using assms
  by (simp add: collector_defs Queue_get_def Let_def)

text \<open>
  Claim C3. With \<open>previous_send\<close> assigned, \<^verbatim>\<open>check_bundle\<close> moves to
  \<^verbatim>\<open>PACK_BUNDLE\<close> exactly when the pending list has at least \<open>bundlesize\<close> tasks or at
  least \<open>bundlewait\<close> seconds have passed since \<open>previous_send\<close>, and to
  \<^verbatim>\<open>GET_LOCAL\<close> otherwise, changing nothing else. When the task taken in
  \<^verbatim>\<open>GET_LOCAL\<close> brings the pending list to exactly \<open>bundlesize\<close>, the next three turns
  check, pack and push that very list, whatever the clock reads. And a turn of the collector
  changes \<open>previous_send\<close> only in \<^verbatim>\<open>START\<close> or when it pushes a non-empty bundle to
  \<^verbatim>\<open>completed\<close>: taking a task into the pending list leaves the timer alone.
\<close>

theorem check_bundle_policy:
  "(previous_send c = Some prev \<longrightarrow>
      ClientCollector_check_bundle now c =
        Inr (c\<lparr>coll_state :=
          (if coll_bundlesize c \<le> int (length (coll_tasks c)) \<or>
              coll_bundlewait c * 1000000 \<le> now - prev
           then Coll_PACK_BUNDLE else Coll_GET_LOCAL)\<rparr>))
   \<and> (coll_state c = Coll_GET_LOCAL \<and> previous_send c = Some prev \<and>
        items local = Some t # rest \<and> int (length (coll_tasks c)) + 1 = coll_bundlesize c \<longrightarrow>
      ClientCollector_run [n1, n2, n3, n4] local cs c =
        Inr (c\<lparr>coll_tasks := [], coll_bundle := [], previous_send := Some n4\<rparr>,
             local\<lparr>items := rest\<rparr>, cs @ [map Task_pack (coll_tasks c @ [t])]))
   \<and> (ClientCollector_next now local cs c = Inr (c', local', cs') \<and>
        previous_send c' \<noteq> previous_send c \<longrightarrow>
      previous_send c' = Some now \<and>
      (coll_state c = Coll_START \<or>
       (coll_state c = Coll_PUT_REMOTE \<or> coll_state c = Coll_FINALIZE) \<and>
         coll_bundle c \<noteq> [] \<and> cs' = cs @ [coll_bundle c]))"
  using check_bundle_value threshold_flush previous_send_frame by blast

theorem check_bundle_policy_witness:
  "ClientCollector_check_bundle 1000000
       \<lparr>coll_state = Coll_GET_LOCAL, coll_tasks = [Task_new ''t1'' ''true''], coll_bundle = [],
        coll_bundlesize = 2, coll_bundlewait = 1, previous_send = Some 0\<rparr> =
     Inr \<lparr>coll_state = Coll_PACK_BUNDLE, coll_tasks = [Task_new ''t1'' ''true''], coll_bundle = [],
        coll_bundlesize = 2, coll_bundlewait = 1, previous_send = Some 0\<rparr>
   \<and> ClientCollector_run [1, 2, 3, 4]
       \<lparr>maxsize = 1, items = [Some (Task_new ''t2'' ''true'')]\<rparr> []
       \<lparr>coll_state = Coll_GET_LOCAL, coll_tasks = [Task_new ''t1'' ''true''], coll_bundle = [],
        coll_bundlesize = 2, coll_bundlewait = 1, previous_send = Some 0\<rparr> =
     Inr (\<lparr>coll_state = Coll_GET_LOCAL, coll_tasks = [], coll_bundle = [],
           coll_bundlesize = 2, coll_bundlewait = 1, previous_send = Some 4\<rparr>,
          \<lparr>maxsize = 1, items = []\<rparr>,
          [[Packed (Task_new ''t1'' ''true''), Packed (Task_new ''t2'' ''true'')]])
   \<and> ClientCollector_next 7 \<lparr>maxsize = 1, items = []\<rparr> []
       \<lparr>coll_state = Coll_PUT_REMOTE, coll_tasks = [Task_new ''t1'' ''true''],
        coll_bundle = [Packed (Task_new ''t1'' ''true'')],
        coll_bundlesize = 2, coll_bundlewait = 1, previous_send = Some 0\<rparr> =
     Inr (\<lparr>coll_state = Coll_GET_LOCAL, coll_tasks = [], coll_bundle = [],
           coll_bundlesize = 2, coll_bundlewait = 1, previous_send = Some 7\<rparr>,
          \<lparr>maxsize = 1, items = []\<rparr>, [[Packed (Task_new ''t1'' ''true'')]])"
  using check_bundle_policy
    [of "\<lparr>coll_state = Coll_GET_LOCAL, coll_tasks = [Task_new ''t1'' ''true''], coll_bundle = [],
          coll_bundlesize = 2, coll_bundlewait = 1, previous_send = Some 0\<rparr>"
        0 1000000 "\<lparr>maxsize = 1, items = [Some (Task_new ''t2'' ''true'')]\<rparr>"
        "Task_new ''t2'' ''true''" "[]" 1 2 3 4 "[]"]
    check_bundle_policy
    [where c = "\<lparr>coll_state = Coll_PUT_REMOTE, coll_tasks = [Task_new ''t1'' ''true''],
          coll_bundle = [Packed (Task_new ''t1'' ''true'')],
          coll_bundlesize = 2, coll_bundlewait = 1, previous_send = Some 0\<rparr>"
       and now = 7 and local = "\<lparr>maxsize = 1, items = []\<rparr>" and cs = "[]"
       and c' = "\<lparr>coll_state = Coll_GET_LOCAL, coll_tasks = [], coll_bundle = [],
           coll_bundlesize = 2, coll_bundlewait = 1, previous_send = Some 7\<rparr>"
       and local' = "\<lparr>maxsize = 1, items = []\<rparr>"
       and cs' = "[[Packed (Task_new ''t1'' ''true'')]]"]
  by (simp add: collector_defs Task_pack_def Queue_get_def)

section \<open>The rendered command\<close>

lemma occurrences_Cons:
  "occurrences (c # cs) old =
     (if take (length old) (c # cs) = old then [0] else []) @ map Suc (occurrences cs old)"
proof -
  have "[0..<length (c # cs)] = 0 # map Suc [0..<length cs]"
    by (simp add: upt_conv_Cons map_Suc_upt del: upt_Suc)
  then show ?thesis
    by (simp add: occurrences_def filter_map comp_def del: upt_Suc)
qed

lemma replace_no_marker:
  "occurrences s ''{}'' = [] \<Longrightarrow> str_replace s ''{}'' a = s"
  by (induction s) (auto simp: occurrences_Cons split: if_splits)

lemma replace_single_marker:
  "occurrences s ''{}'' = [n] \<Longrightarrow> str_replace s ''{}'' a = take n s @ a @ drop (n + 2) s"
proof (induction s arbitrary: n)
  case Nil
  then show ?case by (simp add: occurrences_def)
next
  case (Cons c cs)
  show ?case
  proof (cases "take 2 (c # cs) = ''{}''")
    case True
    then obtain r where cs: "c = CHR ''{''" "cs = CHR ''}'' # r"
      by (cases cs) auto
    from Cons.prems True have n: "n = 0" and none: "occurrences cs ''{}'' = []"
      by (auto simp: occurrences_Cons)
    from none cs have "occurrences r ''{}'' = []"
      by (auto simp: occurrences_Cons split: if_splits)
    then have "str_replace r ''{}'' a = r" by (rule replace_no_marker)
    then show ?thesis using cs n by simp
  next
    case False
    with Cons.prems obtain m where m: "occurrences cs ''{}'' = [m]" "n = Suc m"
      by (auto simp: occurrences_Cons map_eq_Cons_conv)
    from Cons.IH[OF m(1)] False m(2) show ?thesis by auto
  qed
qed

text \<open>
  Claim C8. When the template holds the marker \<^verbatim>\<open>{}\<close> at one place \<open>n\<close> only,
  \<^verbatim>\<open>start_task\<close> sets the task's command to the template with those two characters
  replaced by the task's argument string as it is: what stands before the marker, then the
  arguments unchanged, then what stands after it. That command is what the shell is given.
\<close>

theorem rendered_command:
  assumes "exec_task ex = Some t"
      and "occurrences (exec_template ex) ''{}'' = [n]"
  shows "\<exists>ex' t'. TaskExecutor_start_task hostname now True ex = Inr ex'
           \<and> exec_task ex' = Some t'
           \<and> command t' = Some (take n (exec_template ex) @ args t @ drop (n + 2) (exec_template ex))
           \<and> map_option popen_args (exec_process ex') = command t'"
  using assms
  by (simp add: TaskExecutor_start_task_def Let_def replace_single_marker)

theorem rendered_command_witness:
  "occurrences ''echo {} >out'' ''{}'' = [5]
   \<and> (\<exists>ex' t'. TaskExecutor_start_task ''node1'' 10 True
          \<lparr>exec_id = 1, exec_template = ''echo {} >out'', exec_state = Task_START_TASK,
           exec_task = Some (Task_new ''t1'' ''a; b | $c''), exec_process = None\<rparr> = Inr ex'
        \<and> exec_task ex' = Some t'
        \<and> command t' = Some ''echo a; b | $c >out''
        \<and> map_option popen_args (exec_process ex') = command t')"
proof -
  have occ: "occurrences ''echo {} >out'' ''{}'' = [5]"
    by (simp add: occurrences_def upt_rec)
  show ?thesis
    using occ rendered_command
      [where ex = "\<lparr>exec_id = 1, exec_template = ''echo {} >out'', exec_state = Task_START_TASK,
           exec_task = Some (Task_new ''t1'' ''a; b | $c''), exec_process = None\<rparr>"
         and t = "Task_new ''t1'' ''a; b | $c''" and n = 5 and hostname = "''node1''" and now = 10]
    by (simp add: Task_new_def)
qed

section \<open>Runs: one event at a time\<close>

lemma turns_invariant:
  assumes "turns h evs s = Inr s'" and "P s"
      and "\<And>e s s'. P s \<Longrightarrow> turn h e s = Inr s' \<Longrightarrow> P s'"
  shows "P s'"
  using assms(1,2)
proof (induction evs arbitrary: s)
  case Nil
  then show ?case by simp
next
  case (Cons e es)
  then show ?case
    by (auto split: sum.splits intro: assms(3))
qed

lemmas client_defs =
  ClientThread_run_def start_threads_def wait_scheduler_def wait_executors_put_def
  wait_executors_join_def wait_collector_put_def wait_collector_join_def register_final_task_def

lemma ClientThread_run_collector:
  "ClientThread_run s = Inr s' \<Longrightarrow> collector s' = collector s"
  by (auto simp: client_defs split: run_position.splits if_splits option.splits)

lemma collector_next_bundle:
  assumes "ClientCollector_next now q cs c = Inr (c', q', cs')"
      and "coll_state c \<noteq> Coll_PUT_REMOTE \<longrightarrow> coll_bundle c = []"
  shows "coll_state c' \<noteq> Coll_PUT_REMOTE \<longrightarrow> coll_bundle c' = []"
  using assms
  by (cases "coll_state c")
     (auto simp: collector_defs Let_def
        split: option.splits list.splits if_splits prod.splits sum.splits)

declare turn.simps [simp del]

lemma turn_cases [consumes 1, case_names Server Scheduler_idle Scheduler Executor_idle Executor Collector_idle Collector Client]:
  assumes "turn h e s = Inr s'"
  obtains m where "e = Server_put m" "s' = s\<lparr>scheduled := scheduled s @ [m]\<rparr>"
  | "e = Scheduler_turn" "s' = s"
  | sc ch q where "e = Scheduler_turn" "position s \<noteq> At_start_threads"
      "ClientScheduler_next (scheduled s) (inbound s) (scheduler s) = Inr (sc, ch, q)"
      "s' = s\<lparr>scheduler := sc, scheduled := ch, inbound := q\<rparr>"
  | i now sp w where "e = Executor_turn i now sp w" "s' = s"
  | i now sp w ex qi qo where "e = Executor_turn i now sp w"
      "position s \<noteq> At_start_threads" "i < length (executors s)"
      "TaskExecutor_next h now sp w (inbound s) (outbound s) (executors s ! i) = Inr (ex, qi, qo)"
      "s' = s\<lparr>executors := (executors s)[i := ex], inbound := qi, outbound := qo\<rparr>"
  | now where "e = Collector_turn now" "s' = s"
  | now c q cs where "e = Collector_turn now" "position s \<noteq> At_start_threads"
      "ClientCollector_next now (outbound s) (completed s) (collector s) = Inr (c, q, cs)"
      "s' = s\<lparr>collector := c, outbound := q, completed := cs\<rparr>"
  | "e = Client_turn" "ClientThread_run s = Inr s'"
proof (cases e)
  case (Server_put m)
  with assms have "s' = s\<lparr>scheduled := scheduled s @ [m]\<rparr>" by (auto simp: turn.simps)
  with Server_put show ?thesis by (rule that(1))
next
  case Scheduler_turn
  with assms have t: "turn h Scheduler_turn s = Inr s'" by simp
  show ?thesis
  proof (cases "position s = At_start_threads")
    case True
    with t have "s' = s" by (simp add: turn.simps)
    with Scheduler_turn show ?thesis by (rule that(2))
  next
    case False
    with t obtain sc ch q where
      n: "ClientScheduler_next (scheduled s) (inbound s) (scheduler s) = Inr (sc, ch, q)"
      and s': "s' = s\<lparr>scheduler := sc, scheduled := ch, inbound := q\<rparr>"
      by (auto simp: turn.simps split: sum.splits prod.splits)
    from Scheduler_turn False n s' show ?thesis by (rule that(3))
  qed
next
  case (Executor_turn i now sp w)
  with assms have t: "turn h (Executor_turn i now sp w) s = Inr s'" by simp
  show ?thesis
  proof (cases "position s = At_start_threads \<or> \<not> i < length (executors s)")
    case True
    with t have "s' = s" by (auto simp: turn.simps)
    with Executor_turn show ?thesis by (rule that(4))
  next
    case False
    with t obtain ex qi qo where
      n: "TaskExecutor_next h now sp w (inbound s) (outbound s) (executors s ! i) = Inr (ex, qi, qo)"
      and s': "s' = s\<lparr>executors := (executors s)[i := ex], inbound := qi, outbound := qo\<rparr>"
      by (auto simp: turn.simps split: sum.splits prod.splits)
    from False have "position s \<noteq> At_start_threads" "i < length (executors s)" by auto
    with Executor_turn show ?thesis using n s' by (rule that(5))
  qed
next
  case (Collector_turn now)
  with assms have t: "turn h (Collector_turn now) s = Inr s'" by simp
  show ?thesis
  proof (cases "position s = At_start_threads")
    case True
    with t have "s' = s" by (simp add: turn.simps)
    with Collector_turn show ?thesis by (rule that(6))
  next
    case False
    with t obtain c q cs where
      n: "ClientCollector_next now (outbound s) (completed s) (collector s) = Inr (c, q, cs)"
      and s': "s' = s\<lparr>collector := c, outbound := q, completed := cs\<rparr>"
      by (auto simp: turn.simps split: sum.splits prod.splits)
    from Collector_turn False n s' show ?thesis by (rule that(7))
  qed
next
  case Client_turn
  with assms have "ClientThread_run s = Inr s'" by (simp add: turn.simps)
  with Client_turn show ?thesis by (rule that(8))
qed

lemma turn_bundle_empty:
  assumes "turn h e s = Inr s'"
      and "coll_state (collector s) \<noteq> Coll_PUT_REMOTE \<longrightarrow> coll_bundle (collector s) = []"
  shows "coll_state (collector s') \<noteq> Coll_PUT_REMOTE \<longrightarrow> coll_bundle (collector s') = []"
  using assms(1)
proof (cases rule: turn_cases)
  case (Collector now c q cs)
  with collector_next_bundle[OF Collector(3) assms(2)] show ?thesis by simp
next
  case Client
  with assms(2) ClientThread_run_collector[OF Client(2)] show ?thesis by simp
qed (use assms(2) in simp_all)

text \<open>
  Outside \<^verbatim>\<open>PUT_REMOTE\<close> the collector's packed bundle is empty in every run:
  \<^verbatim>\<open>put_remote\<close> clears it, and only \<^verbatim>\<open>pack_bundle\<close> fills it.
\<close>

lemma bundle_empty_outside_put_remote:
  assumes "turns h evs (ClientThread_init D n bs bw tpl) = Inr s"
      and "coll_state (collector s) \<noteq> Coll_PUT_REMOTE"
  shows "coll_bundle (collector s) = []"
proof -
  have "coll_state (collector s) \<noteq> Coll_PUT_REMOTE \<longrightarrow> coll_bundle (collector s) = []"
    using assms(1)
    by (rule turns_invariant)
       (simp_all add: ClientThread_init_def ClientCollector_init_def turn_bundle_empty)
  with assms(2) show ?thesis by simp
qed

lemma finalize_pushes_nothing:
  assumes "turns h evs (ClientThread_init D n bs bw tpl) = Inr s"
      and "coll_state (collector s) = Coll_FINALIZE"
  shows "ClientCollector_finalize now cs (collector s) =
           ((collector s)\<lparr>coll_state := Coll_HALT\<rparr>, cs)"
  using bundle_empty_outside_put_remote[OF assms(1)] assms(2)
  by (simp add: ClientCollector_finalize_def ClientCollector_put_remote_def)

section \<open>What finalize pushes\<close>

text \<open>
  Claim C2 (fails on the code). \<^verbatim>\<open>finalize\<close> calls \<^verbatim>\<open>put_remote\<close> without
  \<^verbatim>\<open>pack_bundle\<close>, and the packed bundle is empty whenever the collector is in
  \<^verbatim>\<open>FINALIZE\<close> (\<open>finalize_pushes_nothing\<close>), so the pending list is never pushed
  there. In the run \<open>one_task_run\<close> the task \<open>t1\<close> reaches \<^verbatim>\<open>outbound\<close> and
  the pending list; at the end the collector has halted, nothing has been put on
  \<^verbatim>\<open>completed\<close>, \<open>t1\<close> is still pending and the terminator is published.
\<close>

theorem finalize_leaves_pending_tasks:
  "(case turns ''node1'' one_task_run (ClientThread_init 1 1 3 3600 ''{}'') of
      Inl e \<Rightarrow> None
    | Inr s \<Rightarrow> Some (coll_state (collector s), completed s,
                       map task_id (coll_tasks (collector s)), terminator s))
   = Some (Coll_HALT, [], [''t1''], [''t1''])"
  by code_simp

section \<open>The capacity of the local queues\<close>

lemma queue_capacity:
  "maxsize (inbound (ClientThread_init D n bs bw tpl)) = D
   \<and> maxsize (outbound (ClientThread_init D n bs bw tpl)) = D
   \<and> coll_bundlesize (collector (ClientThread_init D n bs bw tpl)) = bs"
  by (simp add: ClientThread_init_def Queue_new_def ClientCollector_init_def)

text \<open>
  Claim C4 (fails on the code). \<^verbatim>\<open>__init__\<close> builds both queues with
  \<^verbatim>\<open>maxsize=DEFAULT_BUNDLESIZE\<close>, the module constant, and hands the argument
  \<^verbatim>\<open>bundlesize\<close> to the collector only (\<open>queue_capacity\<close>). With the constant 1 and a
  client given \<^verbatim>\<open>bundlesize=5\<close>, both queues have capacity 1.
\<close>

theorem queues_ignore_bundlesize:
  "maxsize (inbound (ClientThread_init 1 1 5 600 ''{}'')) = 1
   \<and> maxsize (outbound (ClientThread_init 1 1 5 600 ''{}'')) = 1
   \<and> coll_bundlesize (collector (ClientThread_init 1 1 5 600 ''{}'')) = 5"
  by (simp add: ClientThread_init_def Queue_new_def ClientCollector_init_def)

section \<open>Failing tasks\<close>

lemmas executor_defs =
  TaskExecutor_next_def TaskExecutor_start_def TaskExecutor_get_local_def
  TaskExecutor_start_task_def TaskExecutor_wait_task_def TaskExecutor_put_local_def
  TaskExecutor_finalize_def




section \<open>Shutdown order\<close>

lemmas scheduler_defs =
  ClientScheduler_next_def ClientScheduler_start_def ClientScheduler_get_remote_def
  ClientScheduler_unpack_bundle_def ClientScheduler_pop_task_def ClientScheduler_put_local_def

lemma sched_next_halt:
  "sched_state sc = Sched_HALT \<Longrightarrow> ClientScheduler_next ch q sc = Inr (sc, ch, q)"
  by (simp add: ClientScheduler_next_def)

lemma exec_next_halt:
  "exec_state ex = Task_HALT \<Longrightarrow> TaskExecutor_next h now sp w qi qo ex = Inr (ex, qi, qo)"
  by (simp add: TaskExecutor_next_def)

lemma coll_next_halt:
  "coll_state c = Coll_HALT \<Longrightarrow> ClientCollector_next now q cs c = Inr (c, q, cs)"
  by (simp add: ClientCollector_next_def)

lemma run_position_effect:
  assumes "ClientThread_run s = Inr s'"
  shows "scheduler s' = scheduler s \<and> collector s' = collector s \<and> executors s' = executors s
    \<and> scheduled s' = scheduled s \<and> completed s' = completed s
    \<and> maxsize (inbound s') = maxsize (inbound s) \<and> maxsize (outbound s') = maxsize (outbound s)"
  using assms
  by (auto simp: client_defs Queue_put_def split: run_position.splits if_splits option.splits)

lemma scheduler_awaited_turn:
  assumes "turn h e s = Inr s'" and "scheduler_awaited s"
  shows "scheduler_awaited s'"
  using assms(1)
proof (cases rule: turn_cases)
  case (Scheduler sc ch q)
  with assms(2) show ?thesis
    by (auto simp: scheduler_awaited_def sched_next_halt)
next
  case Client
  with assms(2) show ?thesis
    by (auto simp: scheduler_awaited_def past_wait_scheduler_def client_defs
          split: run_position.splits if_splits option.splits)
qed (use assms(2) in \<open>simp_all add: scheduler_awaited_def\<close>)

lemma executors_awaited_turn:
  assumes "turn h e s = Inr s'" and "executors_awaited s"
  shows "executors_awaited s'"
  using assms(1)
proof (cases rule: turn_cases)
  case (Executor i now sp w ex qi qo)
  have "exec_state ((executors s)[i := ex] ! k) = Task_HALT"
    if "k < joined (position s) (length (executors s))" for k
  proof (cases "k = i")
    case True
    with that assms(2) have "exec_state (executors s ! i) = Task_HALT" by (simp add: executors_awaited_def)
    with Executor(4) have "ex = executors s ! i" by (simp add: exec_next_halt)
    with True Executor(3) show ?thesis using \<open>exec_state (executors s ! i) = Task_HALT\<close> by simp
  next
    case False
    with that assms(2) show ?thesis by (simp add: executors_awaited_def)
  qed
  with Executor show ?thesis by (simp add: executors_awaited_def)
next
  case Client
  with assms(2) show ?thesis
    by (auto simp: executors_awaited_def client_defs less_Suc_eq
          split: run_position.splits if_splits option.splits)
qed (use assms(2) in \<open>simp_all add: executors_awaited_def\<close>)

lemma collector_awaited_turn:
  assumes "turn h e s = Inr s'" and "collector_awaited s"
  shows "collector_awaited s'"
  using assms(1)
proof (cases rule: turn_cases)
  case (Collector now c q cs)
  with assms(2) show ?thesis
    by (auto simp: collector_awaited_def coll_next_halt)
next
  case Client
  with assms(2) show ?thesis
    by (auto simp: collector_awaited_def past_wait_collector_def client_defs
          split: run_position.splits if_splits option.splits)
qed (use assms(2) in \<open>simp_all add: collector_awaited_def\<close>)

lemma terminator_last_turn:
  assumes "turn h e s = Inr s'" and "terminator_last s"
  shows "terminator_last s'"
  using assms(1)
proof (cases rule: turn_cases)
  case Client
  with assms(2) show ?thesis
    by (auto simp: terminator_last_def client_defs
          split: run_position.splits if_splits option.splits)
qed (use assms(2) in \<open>simp_all add: terminator_last_def\<close>)

lemma exec_next_working:
  assumes "TaskExecutor_next h now sp w qi qo ex = Inr (ex', qi', qo')"
      and "working ex \<longrightarrow> exec_task ex \<noteq> None"
  shows "working ex' \<longrightarrow> exec_task ex' \<noteq> None"
  using assms
  by (cases "exec_state ex")
     (auto simp: executor_defs working_def Let_def Queue_get_def Queue_put_def
        split: option.splits list.splits if_splits prod.splits sum.splits)

lemma executors_hold_tasks_turn:
  assumes "turn h e s = Inr s'" and "executors_hold_tasks s"
  shows "executors_hold_tasks s'"
  using assms(1)
proof (cases rule: turn_cases)
  case (Executor i now sp w ex qi qo)
  from assms(2) Executor(3) have "working (executors s ! i) \<longrightarrow> exec_task (executors s ! i) \<noteq> None"
    by (simp add: executors_hold_tasks_def)
  from exec_next_working[OF Executor(4) this] have ex: "working ex \<longrightarrow> exec_task ex \<noteq> None" .
  have "set ((executors s)[i := ex]) \<subseteq> insert ex (set (executors s))"
    by (rule set_update_subset_insert)
  with ex assms(2) Executor(5) show ?thesis
    by (auto simp: executors_hold_tasks_def)
next
  case Client
  with assms(2) run_position_effect[OF Client(2)] show ?thesis
    by (simp add: executors_hold_tasks_def)
qed (use assms(2) in \<open>simp_all add: executors_hold_tasks_def\<close>)

lemma exec_next_outbound:
  assumes "TaskExecutor_next h now sp w qi qo ex = Inr (ex', qi', qo')"
  shows "qo' = qo \<or> (exec_state ex = Task_PUT_LOCAL \<and> qo' = qo\<lparr>items := items qo @ [exec_task ex]\<rparr>)"
  using assms
  by (cases "exec_state ex")
     (auto simp: executor_defs Let_def Queue_get_def Queue_put_def
        split: option.splits list.splits if_splits prod.splits sum.splits)

lemma coll_next_outbound:
  assumes "ClientCollector_next now q cs c = Inr (c', q', cs')"
  shows "(q' = q \<and> (finalizing c' \<longleftrightarrow> finalizing c))
       \<or> (\<exists>x. \<not> finalizing c \<and> items q = x # items q' \<and> q' = q\<lparr>items := items q'\<rparr>
              \<and> (finalizing c' \<longleftrightarrow> x = None))"
  using assms
  by (cases "coll_state c")
     (auto simp: collector_defs finalizing_def Let_def Queue_get_def
        split: option.splits list.splits if_splits prod.splits sum.splits)

lemma joined_past_collector_put:
  "past_collector_put p \<Longrightarrow> joined p n = n"
  by (cases p) (auto simp: past_collector_put_def)

lemma outbound_sentinel_turn:
  assumes "turn h e s = Inr s'" and "outbound_sentinel s" and "executors_awaited s" and "executors_hold_tasks s"
  shows "outbound_sentinel s'"
  using assms(1)
proof (cases rule: turn_cases)
  case (Executor i now sp w ex qi qo)
  show ?thesis
  proof (cases "past_collector_put (position s)")
    case True
    with assms(3) Executor(3) have "exec_state (executors s ! i) = Task_HALT"
      by (simp add: executors_awaited_def joined_past_collector_put)
    with Executor(4) have "qo = outbound s" by (simp add: exec_next_halt)
    with assms(2) Executor(5) show ?thesis by (simp add: outbound_sentinel_def)
  next
    case False
    from exec_next_outbound[OF Executor(4)]
    consider "qo = outbound s"
      | "exec_state (executors s ! i) = Task_PUT_LOCAL"
        "qo = (outbound s)\<lparr>items := items (outbound s) @ [exec_task (executors s ! i)]\<rparr>"
      by blast
    then show ?thesis
    proof cases
      case 1
      with assms(2) Executor(5) show ?thesis by (simp add: outbound_sentinel_def)
    next
      case 2
      from assms(4) Executor(3) 2(1) have "exec_task (executors s ! i) \<noteq> None"
        by (simp add: executors_hold_tasks_def working_def)
      with assms(2) False Executor(5) 2(2) show ?thesis by (auto simp: outbound_sentinel_def)
    qed
  qed
next
  case (Collector now c q cs)
  from coll_next_outbound[OF Collector(3)]
  consider "q = outbound s" "finalizing c \<longleftrightarrow> finalizing (collector s)"
    | x where "\<not> finalizing (collector s)" "items (outbound s) = x # items q"
        "finalizing c \<longleftrightarrow> x = None"
    by blast
  then show ?thesis
  proof cases
    case 1
    with assms(2) Collector(4) show ?thesis by (simp add: outbound_sentinel_def)
  next
    case 2
    show ?thesis
    proof (cases "past_collector_put (position s)")
      case True
      with assms(2) 2(1) obtain xs where xs: "items (outbound s) = xs @ [None]" "None \<notin> set xs"
        by (auto simp: outbound_sentinel_def)
      show ?thesis
      proof (cases xs)
        case Nil
        with xs 2 True Collector(4) show ?thesis by (simp add: outbound_sentinel_def)
      next
        case (Cons y ys)
        with xs 2 True Collector(4) show ?thesis by (auto simp: outbound_sentinel_def)
      qed
    next
      case False
      with assms(2) 2 Collector(4) show ?thesis by (auto simp: outbound_sentinel_def)
    qed
  qed
next
  case Client
  with assms(2) show ?thesis
    by (auto simp: outbound_sentinel_def past_collector_put_def client_defs Queue_put_def
          split: run_position.splits if_splits option.splits)
qed (use assms(2) in \<open>simp_all add: outbound_sentinel_def\<close>)

lemma filter_update_count:
  "i < length xs \<Longrightarrow>
     length (filter P (xs[i := y])) + (if P (xs ! i) then 1 else 0)
       = length (filter P xs) + (if P y then 1 else 0)"
proof (induction xs arbitrary: i)
  case Nil
  then show ?case by simp
next
  case (Cons x xs)
  then show ?case by (cases i) auto
qed

lemma sched_next_sentinels:
  assumes "ClientScheduler_next ch q sc = Inr (sc', ch', q')"
  shows "sentinels q' = sentinels q"
  using assms
  by (cases "sched_state sc")
     (auto simp: scheduler_defs sentinels_def Let_def Queue_put_def
        split: option.splits list.splits if_splits prod.splits sum.splits)

lemma exec_next_sentinels:
  assumes "TaskExecutor_next h now sp w qi qo ex = Inr (ex', qi', qo')"
  shows "sentinels qi' + (if finalized ex' then 1 else 0)
           = sentinels qi + (if finalized ex then 1 else 0)"
  using assms
  by (cases "exec_state ex")
     (auto simp: executor_defs sentinels_def finalized_def Let_def Queue_get_def Queue_put_def
        split: option.splits list.splits if_splits prod.splits sum.splits)

lemma inbound_sentinels_turn:
  assumes "turn h e s = Inr s'" and "inbound_sentinels s"
  shows "inbound_sentinels s'"
  using assms(1)
proof (cases rule: turn_cases)
  case (Scheduler sc ch q)
  with assms(2) sched_next_sentinels[OF Scheduler(3)] show ?thesis
    by (simp add: inbound_sentinels_def)
next
  case (Executor i now sp w ex qi qo)
  from exec_next_sentinels[OF Executor(4)] filter_update_count[OF Executor(3), of finalized ex]
  have "sentinels qi + length (filter finalized ((executors s)[i := ex]))
          = sentinels (inbound s) + length (filter finalized (executors s))"
    by (simp split: if_splits)
  with assms(2) Executor(5) show ?thesis
    by (simp add: inbound_sentinels_def)
next
  case Client
  with assms(2) show ?thesis
    by (auto simp: inbound_sentinels_def sentinels_def client_defs Queue_put_def
          split: run_position.splits if_splits option.splits)
qed (use assms(2) in \<open>simp_all add: inbound_sentinels_def\<close>)

lemma shutdown_invariant_init:
  "shutdown_invariant (ClientThread_init D n bs bw tpl)"
proof -
  have "filter finalized (map (\<lambda>count. TaskExecutor_init (int count + 1) tpl) xs) = []" for xs
    by (induction xs) (simp_all add: finalized_def TaskExecutor_init_def)
  then show ?thesis
    by (simp add: shutdown_invariant_def ClientThread_init_def scheduler_awaited_def
          executors_awaited_def collector_awaited_def terminator_last_def
          executors_hold_tasks_def outbound_sentinel_def inbound_sentinels_def
          past_wait_scheduler_def past_collector_put_def past_wait_collector_def
          working_def TaskExecutor_init_def finalizing_def ClientCollector_init_def
          sentinels_def Queue_new_def)
qed

lemma shutdown_invariant_turn:
  assumes "shutdown_invariant s" and "turn h e s = Inr s'"
  shows "shutdown_invariant s'"
  using assms
  unfolding shutdown_invariant_def
  by (blast intro: scheduler_awaited_turn executors_awaited_turn collector_awaited_turn
        terminator_last_turn executors_hold_tasks_turn outbound_sentinel_turn
        inbound_sentinels_turn)

lemma shutdown_invariant_run:
  assumes "turns h evs (ClientThread_init D n bs bw tpl) = Inr s"
  shows "shutdown_invariant s"
  using assms shutdown_invariant_init
  by (rule turns_invariant) (rule shutdown_invariant_turn)




lemma one_task_run_end:
  "turns ''node1'' one_task_run (ClientThread_init 1 1 3 3600 ''{}'') = Inr one_task_end"
  by code_simp



section \<open>The terminal id\<close>

lemma non_null_append: "non_null (xs @ ys) = non_null xs @ non_null ys"
  by (induction xs rule: non_null.induct) auto

lemma terminal_id_snoc_None: "terminal_id (r @ [None]) = terminal_id r"
  by (simp add: terminal_id_def non_null_append)

lemma terminal_id_snoc_Some:
  "b \<noteq> [] \<Longrightarrow> terminal_id (r @ [Some b]) = Some (task_id (Task_unpack (last b)))"
  by (cases b rule: rev_cases) (simp_all add: terminal_id_def non_null_append)

lemma sched_next_received:
  assumes "ClientScheduler_next ch q sc = Inr (sc', ch', q')"
      and "scheduler_has_seen rcv sc"
  shows "\<exists>new. ch = new @ ch' \<and> scheduler_has_seen (rcv @ new) sc'"
proof (cases "sched_state sc")
  case Sched_START
  with assms show ?thesis
    by (auto simp: scheduler_defs scheduler_has_seen_def)
next
  case Sched_GET_REMOTE
  show ?thesis
  proof (cases ch)
    case Nil
    with Sched_GET_REMOTE assms show ?thesis
      by (auto simp: scheduler_defs scheduler_has_seen_def)
  next
    case (Cons m rest)
    with Sched_GET_REMOTE assms have "ch = [m] @ ch' \<and> scheduler_has_seen (rcv @ [m]) sc'"
      by (cases m) (auto simp: scheduler_defs scheduler_has_seen_def non_null_append)
    then show ?thesis by blast
  qed
next
  case Sched_UNPACK
  with assms(2) obtain b where b: "sched_bundle sc = Some b" "rcv = butlast rcv @ [Some b]"
    "None \<notin> set (butlast rcv)" "[] \<notin> set (non_null (butlast rcv))"
    by (auto simp: scheduler_has_seen_def) (metis append_butlast_last_id)
  from Sched_UNPACK assms(1) b(1) have ne: "b \<noteq> []"
    and sc': "sc' = sc\<lparr>sched_tasks := map Task_unpack b,
                 final_task_id := Some (task_id (last (map Task_unpack b))),
                 sched_state := Sched_POP_TASK\<rparr>" and ch: "ch' = ch"
    by (auto simp: scheduler_defs Let_def split: if_splits)
  have "set rcv = insert (Some b) (set (butlast rcv))"
    by (subst b(2)) simp
  with b(3) have "None \<notin> set rcv" by simp
  moreover have "non_null rcv = non_null (butlast rcv) @ [b]"
    by (subst b(2)) (simp add: non_null_append)
  with b(4) ne have "[] \<notin> set (non_null rcv)" by auto
  moreover from ne b(2) have "terminal_id rcv = Some (task_id (last (map Task_unpack b)))"
    by (metis terminal_id_snoc_Some last_map)
  ultimately have "scheduler_has_seen (rcv @ []) sc'"
    using sc' by (simp add: scheduler_has_seen_def)
  with ch show ?thesis by blast
next
  case Sched_POP_TASK
  with assms show ?thesis
    by (auto simp: scheduler_defs scheduler_has_seen_def split: list.splits)
next
  case Sched_PUT_LOCAL
  with assms show ?thesis
    by (auto simp: scheduler_defs scheduler_has_seen_def split: option.splits)
next
  case Sched_HALT
  with assms show ?thesis
    by (auto simp: scheduler_defs scheduler_has_seen_def)
qed

lemma server_sent_append: "server_sent (xs @ ys) = server_sent xs @ server_sent ys"
  by (induction xs rule: server_sent.induct) auto

lemma turns_history_invariant:
  assumes "turns h evs s = Inr s'" and "P pre s"
      and "\<And>e pre s s'. P pre s \<Longrightarrow> turn h e s = Inr s' \<Longrightarrow> P (pre @ server_sent [e]) s'"
  shows "P (pre @ server_sent evs) s'"
  using assms(1,2)
proof (induction evs arbitrary: pre s)
  case Nil
  then show ?case by simp
next
  case (Cons e es)
  from Cons.prems(1) obtain s1 where s1: "turn h e s = Inr s1" "turns h es s1 = Inr s'"
    by (auto split: sum.splits)
  from assms(3)[OF Cons.prems(2) s1(1)] have "P (pre @ server_sent [e]) s1" .
  from Cons.IH[OF s1(2) this] have "P ((pre @ server_sent [e]) @ server_sent es) s'" .
  moreover have "server_sent (e # es) = server_sent [e] @ server_sent es"
    using server_sent_append[of "[e]" es] by simp
  ultimately show ?case by simp
qed

lemma delivered_turn:
  assumes "delivered sent s" and "turn h e s = Inr s'"
  shows "delivered (sent @ server_sent [e]) s'"
  using assms(2)
proof (cases rule: turn_cases)
  case (Server m)
  with assms(1) show ?thesis by (auto simp: delivered_def)
next
  case (Scheduler sc ch q)
  from assms(1) obtain rcv where rcv: "sent = rcv @ scheduled s"
    "scheduler_has_seen rcv (scheduler s)"
    by (auto simp: delivered_def)
  from sched_next_received[OF Scheduler(3) rcv(2)] obtain new where
    "scheduled s = new @ ch" "scheduler_has_seen (rcv @ new) sc" by blast
  with rcv(1) Scheduler(1,4) show ?thesis
    by (auto simp: delivered_def)
next
  case Client
  with assms(1) run_position_effect[OF Client(2)] show ?thesis
    by (simp add: delivered_def)
qed (use assms(1) in \<open>simp_all add: delivered_def\<close>)

lemma delivered_run:
  assumes "turns h evs (ClientThread_init D n bs bw tpl) = Inr s"
  shows "delivered (server_sent evs) s"
proof -
  have "delivered [] (ClientThread_init D n bs bw tpl)"
    by (simp add: delivered_def ClientThread_init_def scheduler_has_seen_def
          ClientScheduler_init_def terminal_id_def)
  from turns_history_invariant[of h evs _ s delivered "[]", OF assms this delivered_turn]
  show ?thesis by simp
qed

lemma received_eq:
  assumes "server_sent evs = rcv @ scheduled s"
  shows "received evs s = rcv"
  using assms by (simp add: received_def)

lemma final_id_turn:
  assumes "turn h e s = Inr s'"
      and "final_task_id (scheduler s') \<noteq> final_task_id (scheduler s)"
  shows "e = Scheduler_turn \<and> sched_state (scheduler s) = Sched_UNPACK
     \<and> (\<exists>b. sched_bundle (scheduler s) = Some b \<and> b \<noteq> []
            \<and> final_task_id (scheduler s') = Some (task_id (Task_unpack (last b))))"
  using assms(1)
proof (cases rule: turn_cases)
  case (Scheduler sc ch q)
  with assms(2) have ne: "final_task_id sc \<noteq> final_task_id (scheduler s)" by simp
  with Scheduler(3) have "sched_state (scheduler s) = Sched_UNPACK
     \<and> (\<exists>b. sched_bundle (scheduler s) = Some b \<and> b \<noteq> []
            \<and> final_task_id sc = Some (task_id (Task_unpack (last b))))"
    by (cases "sched_state (scheduler s)")
       (auto simp: scheduler_defs Let_def last_map
          split: option.splits list.splits if_splits)
  with Scheduler(1,4) show ?thesis by simp
next
  case Client
  with assms(2) run_position_effect[OF Client(2)] show ?thesis by simp
qed (use assms(2) in simp_all)

lemma terminator_is_final_id_turn:
  assumes "terminator_is_final_id s" and "shutdown_invariant s" and "turn h e s = Inr s'"
  shows "terminator_is_final_id s'"
  using assms(3)
proof (cases rule: turn_cases)
  case (Scheduler sc ch q)
  show ?thesis
  proof (cases "terminator s = []")
    case True
    with Scheduler(4) show ?thesis by (simp add: terminator_is_final_id_def)
  next
    case False
    with assms(2) have "sched_state (scheduler s) = Sched_HALT"
      by (simp add: shutdown_invariant_def terminator_last_def scheduler_awaited_def
            past_wait_scheduler_def)
    with Scheduler(3) have "sc = scheduler s" by (simp add: sched_next_halt)
    with assms(1) Scheduler(4) show ?thesis by (simp add: terminator_is_final_id_def)
  qed
next
  case Client
  show ?thesis
  proof (cases "position s")
    case At_register_final_task
    with Client(2) assms(2) show ?thesis
      by (auto simp: client_defs terminator_is_final_id_def shutdown_invariant_def
            terminator_last_def split: option.splits)
  qed (use Client(2) assms(1) in
        \<open>auto simp: client_defs terminator_is_final_id_def split: if_splits option.splits\<close>)
qed (use assms(1) in \<open>simp_all add: terminator_is_final_id_def\<close>)

lemma terminator_is_final_id_run:
  assumes "turns h evs (ClientThread_init D n bs bw tpl) = Inr s"
  shows "terminator_is_final_id s"
proof -
  have "terminator_is_final_id s \<and> shutdown_invariant s"
    using assms
  proof (rule turns_invariant)
    show "terminator_is_final_id (ClientThread_init D n bs bw tpl)
          \<and> shutdown_invariant (ClientThread_init D n bs bw tpl)"
      by (simp add: shutdown_invariant_init) (simp add: terminator_is_final_id_def ClientThread_init_def)
  next
    fix e s s'
    assume "terminator_is_final_id s \<and> shutdown_invariant s" "turn h e s = Inr s'"
    then show "terminator_is_final_id s' \<and> shutdown_invariant s'"
      using terminator_is_final_id_turn shutdown_invariant_turn by blast
  qed
  then show ?thesis by simp
qed

lemma terminal_id_Some:
  assumes "terminal_id msgs = Some i"
  shows "non_null msgs \<noteq> [] \<and> last (non_null msgs) \<noteq> []
     \<and> i = task_id (Task_unpack (last (last (non_null msgs))))"
proof (cases "non_null msgs" rule: rev_cases)
  case Nil
  with assms show ?thesis by (simp add: terminal_id_def)
next
  case (snoc bs b)
  with assms show ?thesis
    by (cases b rule: rev_cases) (simp_all add: terminal_id_def)
qed

lemma terminal_id_nonempty:
  assumes "non_null msgs \<noteq> []" and "[] \<notin> set (non_null msgs)"
  shows "terminal_id msgs = Some (task_id (Task_unpack (last (last (non_null msgs)))))"
proof (cases "non_null msgs" rule: rev_cases)
  case Nil
  with assms show ?thesis by simp
next
  case (snoc bs b)
  with assms show ?thesis
    by (cases b rule: rev_cases) (simp_all add: terminal_id_def)
qed

lemma halted_final_id:
  assumes "scheduler_has_seen rcv sc" and "sched_state sc = Sched_HALT"
  shows "final_task_id sc = terminal_id rcv \<and> [] \<notin> set (non_null rcv)"
proof -
  from assms have r: "rcv = butlast rcv @ [None]" "[] \<notin> set (non_null (butlast rcv))"
    "final_task_id sc = terminal_id (butlast rcv)"
    by (auto simp: scheduler_has_seen_def) (metis append_butlast_last_id)
  have "terminal_id rcv = terminal_id (butlast rcv)"
    by (subst r(1)) (simp add: terminal_id_snoc_None)
  moreover have "non_null rcv = non_null (butlast rcv)"
    by (subst r(1)) (simp add: non_null_append)
  ultimately show ?thesis using r(2,3) by simp
qed

text \<open>An empty bundle ends the scheduler with \<^verbatim>\<open>IndexError\<close>, and the run with it.\<close>

lemma unpack_empty_bundle:
  "sched_bundle sc = Some [] \<Longrightarrow> ClientScheduler_unpack_bundle sc = Inl IndexError"
  by (simp add: ClientScheduler_unpack_bundle_def)

text \<open>
  Claim C1. In every run of the client that no exception ends, the messages the server has
  sent are those the scheduler has received followed by those still on \<^verbatim>\<open>scheduled\<close>.
  When the scheduler has halted and has received a bundle, its \<open>final_task_id\<close> is the
  id of the last task of the last bundle received. When the terminator has been published,
  a bundle has been received, the last one received has a task, and what was published is
  the id of its last task. And a turn changes \<open>final_task_id\<close> only when it is the
  scheduler's turn in \<^verbatim>\<open>UNPACK\<close> on a bundle that is not empty, to the id of that
  bundle's last task.
\<close>

theorem terminal_id_published:
  assumes "turns h evs (ClientThread_init D n bs bw tpl) = Inr s"
  shows "server_sent evs = received evs s @ scheduled s
     \<and> (sched_state (scheduler s) = Sched_HALT \<and> non_null (received evs s) \<noteq> [] \<longrightarrow>
          final_task_id (scheduler s)
            = Some (task_id (Task_unpack (last (last (non_null (received evs s)))))))
     \<and> (terminator s \<noteq> [] \<longrightarrow>
          non_null (received evs s) \<noteq> [] \<and> last (non_null (received evs s)) \<noteq> []
          \<and> terminator s = [task_id (Task_unpack (last (last (non_null (received evs s)))))])
     \<and> (turn h e s = Inr s' \<and> final_task_id (scheduler s') \<noteq> final_task_id (scheduler s) \<longrightarrow>
          e = Scheduler_turn \<and> sched_state (scheduler s) = Sched_UNPACK
          \<and> (\<exists>b. sched_bundle (scheduler s) = Some b \<and> b \<noteq> []
                 \<and> final_task_id (scheduler s') = Some (task_id (Task_unpack (last b)))))"
proof -
  from delivered_run[OF assms] obtain rcv where rcv: "server_sent evs = rcv @ scheduled s"
    "scheduler_has_seen rcv (scheduler s)"
    by (auto simp: delivered_def)
  from received_eq[OF rcv(1)] have r: "received evs s = rcv" .
  have halted: "final_task_id (scheduler s) = terminal_id rcv \<and> [] \<notin> set (non_null rcv)"
    if "sched_state (scheduler s) = Sched_HALT"
    using halted_final_id[OF rcv(2) that] .
  have c1: "server_sent evs = received evs s @ scheduled s"
    using rcv(1) r by simp
  have c2: "sched_state (scheduler s) = Sched_HALT \<and> non_null (received evs s) \<noteq> [] \<longrightarrow>
          final_task_id (scheduler s)
            = Some (task_id (Task_unpack (last (last (non_null (received evs s))))))"
    using halted terminal_id_nonempty[of rcv] r by auto
  have c3: "terminator s \<noteq> [] \<longrightarrow>
          non_null (received evs s) \<noteq> [] \<and> last (non_null (received evs s)) \<noteq> []
          \<and> terminator s = [task_id (Task_unpack (last (last (non_null (received evs s)))))]"
  proof
    assume t: "terminator s \<noteq> []"
    with shutdown_invariant_run[OF assms] have "sched_state (scheduler s) = Sched_HALT"
      by (simp add: shutdown_invariant_def terminator_last_def scheduler_awaited_def
            past_wait_scheduler_def)
    from halted[OF this] have f: "final_task_id (scheduler s) = terminal_id rcv" by simp
    from terminator_is_final_id_run[OF assms] t
    obtain i where i: "terminator s = [i]" "final_task_id (scheduler s) = Some i"
      by (auto simp: terminator_is_final_id_def map_eq_Cons_conv)
    from i(2) f have "terminal_id rcv = Some i" by simp
    from terminal_id_Some[OF this] i(1) r
    show "non_null (received evs s) \<noteq> [] \<and> last (non_null (received evs s)) \<noteq> []
          \<and> terminator s = [task_id (Task_unpack (last (last (non_null (received evs s)))))]"
      by simp
  qed
  have c4: "turn h e s = Inr s' \<and> final_task_id (scheduler s') \<noteq> final_task_id (scheduler s) \<longrightarrow>
          e = Scheduler_turn \<and> sched_state (scheduler s) = Sched_UNPACK
          \<and> (\<exists>b. sched_bundle (scheduler s) = Some b \<and> b \<noteq> []
                 \<and> final_task_id (scheduler s') = Some (task_id (Task_unpack (last b))))"
    using final_id_turn by blast
  from c1 c2 c3 c4 show ?thesis by blast
qed

lemma run_obtain:
  "(case turns h evs s0 of Inl e \<Rightarrow> False | Inr s \<Rightarrow> P s) \<Longrightarrow> \<exists>s. turns h evs s0 = Inr s \<and> P s"
  by (cases "turns h evs s0") auto

theorem terminal_id_published_witness:
  "turns ''node1'' one_task_run (ClientThread_init 1 1 3 3600 ''{}'') = Inr one_task_end
   \<and> received one_task_run one_task_end = [Some [Packed (Task_new ''t1'' ''true'')], None]
   \<and> sched_state (scheduler one_task_end) = Sched_HALT
   \<and> final_task_id (scheduler one_task_end) = Some ''t1''
   \<and> terminator one_task_end = [''t1'']
   \<and> (\<exists>s s'. turns ''node1'' (take 5 one_task_run) (ClientThread_init 1 1 3 3600 ''{}'') = Inr s
         \<and> turn ''node1'' Scheduler_turn s = Inr s'
         \<and> sched_state (scheduler s) = Sched_UNPACK
         \<and> sched_bundle (scheduler s) = Some [Packed (Task_new ''t1'' ''true'')]
         \<and> final_task_id (scheduler s) = None
         \<and> final_task_id (scheduler s') = Some ''t1'')"
proof -
  have r: "received one_task_run one_task_end = [Some [Packed (Task_new ''t1'' ''true'')], None]"
    by code_simp
  have "case turns ''node1'' (take 5 one_task_run) (ClientThread_init 1 1 3 3600 ''{}'') of
          Inl e \<Rightarrow> False
        | Inr s \<Rightarrow> sched_bundle (scheduler s) = Some [Packed (Task_new ''t1'' ''true'')]
             \<and> final_task_id (scheduler s) = None
             \<and> (case turn ''node1'' Scheduler_turn s of
                   Inl e \<Rightarrow> False
                 | Inr s' \<Rightarrow> final_task_id (scheduler s') = Some ''t1'')"
    by code_simp
  then obtain s s' where s:
      "turns ''node1'' (take 5 one_task_run) (ClientThread_init 1 1 3 3600 ''{}'') = Inr s"
      "turn ''node1'' Scheduler_turn s = Inr s'"
      "sched_bundle (scheduler s) = Some [Packed (Task_new ''t1'' ''true'')]"
      "final_task_id (scheduler s) = None" "final_task_id (scheduler s') = Some ''t1''"
    by (auto split: sum.splits)
  from terminal_id_published[OF s(1), of Scheduler_turn s'] s(2,4,5)
  have "sched_state (scheduler s) = Sched_UNPACK" by simp
  with s r one_task_run_end terminal_id_published[OF one_task_run_end]
  show ?thesis
    by (auto simp: one_task_end_def)
qed

section \<open>Disconnect before any bundle\<close>

lemma no_bundle_final_id:
  assumes "scheduler_has_seen rcv sc" and "non_null rcv = []"
  shows "final_task_id sc = None"
proof (cases "sched_state sc")
  case Sched_UNPACK
  with assms(1) obtain b where "rcv = butlast rcv @ [Some b]"
    by (auto simp: scheduler_has_seen_def) (metis append_butlast_last_id)
  then have "non_null rcv = non_null (butlast rcv) @ [b]"
    by (metis non_null_append non_null.simps(1,3))
  with assms(2) show ?thesis by simp
next
  case Sched_HALT
  with assms(1) have r: "rcv = butlast rcv @ [None]" "final_task_id sc = terminal_id (butlast rcv)"
    by (auto simp: scheduler_has_seen_def) (metis append_butlast_last_id)
  have "non_null rcv = non_null (butlast rcv)"
    by (subst r(1)) (simp add: non_null_append)
  with assms(2) r(2) show ?thesis by (simp add: terminal_id_def)
qed (use assms in \<open>auto simp: scheduler_has_seen_def terminal_id_def\<close>)

text \<open>
  Claim C10. In every run of the client that no exception ends, as long as the scheduler
  has received no bundle (only sentinels, or nothing), \<open>final_task_id\<close> is unset and no
  terminator has been published; when the sentinel is then the next message, the scheduler's
  turn in \<^verbatim>\<open>GET_REMOTE\<close> takes it and halts, leaving the id unset; and when the client
  thread arrives at \<^verbatim>\<open>register_final_task\<close>, its turn raises \<^verbatim>\<open>AttributeError\<close>
  and publishes nothing. So a published terminator needs a bundle to have been received.
\<close>

theorem disconnect_before_any_bundle:
  assumes "turns h evs (ClientThread_init D n bs bw tpl) = Inr s"
      and "non_null (received evs s) = []"
  shows "final_task_id (scheduler s) = None
     \<and> terminator s = []
     \<and> (sched_state (scheduler s) = Sched_GET_REMOTE \<and> scheduled s = None # rest
          \<and> position s \<noteq> At_start_threads \<longrightarrow>
        turn h Scheduler_turn s =
          Inr (s\<lparr>scheduler := (scheduler s)\<lparr>sched_bundle := None, sched_state := Sched_HALT\<rparr>,
                 scheduled := rest\<rparr>))
     \<and> (position s = At_register_final_task \<longrightarrow> turn h Client_turn s = Inl AttributeError)"
proof -
  from delivered_run[OF assms(1)] obtain rcv where rcv: "server_sent evs = rcv @ scheduled s"
    "scheduler_has_seen rcv (scheduler s)"
    by (auto simp: delivered_def)
  from received_eq[OF rcv(1)] assms(2) have "non_null rcv = []" by simp
  from no_bundle_final_id[OF rcv(2) this] have f: "final_task_id (scheduler s) = None" .
  from terminator_is_final_id_run[OF assms(1)] f have t: "terminator s = []"
    by (auto simp: terminator_is_final_id_def)
  have g: "sched_state (scheduler s) = Sched_GET_REMOTE \<and> scheduled s = None # rest
          \<and> position s \<noteq> At_start_threads \<longrightarrow>
        turn h Scheduler_turn s =
          Inr (s\<lparr>scheduler := (scheduler s)\<lparr>sched_bundle := None, sched_state := Sched_HALT\<rparr>,
                 scheduled := rest\<rparr>)"
    by (simp add: turn.simps scheduler_defs)
  have c: "position s = At_register_final_task \<longrightarrow> turn h Client_turn s = Inl AttributeError"
    using f by (simp add: turn.simps client_defs)
  from f t g c show ?thesis by blast
qed

theorem disconnect_before_any_bundle_witness:
  "\<exists>s1 s2 s.
      turns ''node1'' (take 3 disconnect_first_run) (ClientThread_init 1 1 3 3600 ''{}'') = Inr s1
    \<and> non_null (received (take 3 disconnect_first_run) s1) = []
    \<and> sched_state (scheduler s1) = Sched_GET_REMOTE \<and> scheduled s1 = [None]
    \<and> turn ''node1'' Scheduler_turn s1 = Inr s2
    \<and> sched_state (scheduler s2) = Sched_HALT \<and> final_task_id (scheduler s2) = None
    \<and> turns ''node1'' disconnect_first_run (ClientThread_init 1 1 3 3600 ''{}'') = Inr s
    \<and> non_null (received disconnect_first_run s) = []
    \<and> position s = At_register_final_task
    \<and> sched_state (scheduler s) = Sched_HALT
    \<and> final_task_id (scheduler s) = None \<and> terminator s = []
    \<and> turn ''node1'' Client_turn s = Inl AttributeError"
proof -
  have "case turns ''node1'' (take 3 disconnect_first_run) (ClientThread_init 1 1 3 3600 ''{}'') of
          Inl e \<Rightarrow> False
        | Inr s1 \<Rightarrow> non_null (received (take 3 disconnect_first_run) s1) = []
            \<and> sched_state (scheduler s1) = Sched_GET_REMOTE \<and> scheduled s1 = [None]
            \<and> position s1 \<noteq> At_start_threads"
    by code_simp
  then obtain s1 where s1:
      "turns ''node1'' (take 3 disconnect_first_run) (ClientThread_init 1 1 3 3600 ''{}'') = Inr s1"
      "non_null (received (take 3 disconnect_first_run) s1) = []"
      "sched_state (scheduler s1) = Sched_GET_REMOTE" "scheduled s1 = [None]"
      "position s1 \<noteq> At_start_threads"
    by (auto split: sum.splits)
  have "case turns ''node1'' disconnect_first_run (ClientThread_init 1 1 3 3600 ''{}'') of
          Inl e \<Rightarrow> False
        | Inr s \<Rightarrow> non_null (received disconnect_first_run s) = []
            \<and> position s = At_register_final_task \<and> sched_state (scheduler s) = Sched_HALT"
    by code_simp
  then obtain s where s:
      "turns ''node1'' disconnect_first_run (ClientThread_init 1 1 3 3600 ''{}'') = Inr s"
      "non_null (received disconnect_first_run s) = []"
      "position s = At_register_final_task" "sched_state (scheduler s) = Sched_HALT"
    by (auto split: sum.splits)
  from disconnect_before_any_bundle[OF s1(1,2), of "[]"] s1(3,4,5)
  have a: "final_task_id (scheduler s1) = None"
    "turn ''node1'' Scheduler_turn s1 =
       Inr (s1\<lparr>scheduler := (scheduler s1)\<lparr>sched_bundle := None, sched_state := Sched_HALT\<rparr>,
               scheduled := []\<rparr>)"
    by simp_all
  from disconnect_before_any_bundle[OF s(1,2)] s(3)
  have b: "final_task_id (scheduler s) = None" "terminator s = []"
    "turn ''node1'' Client_turn s = Inl AttributeError"
    by simp_all
  from s1 s a b show ?thesis
    by (intro exI[of _ s1] exI[of _ "s1\<lparr>scheduler := (scheduler s1)\<lparr>sched_bundle := None, sched_state := Sched_HALT\<rparr>,
               scheduled := []\<rparr>"] exI[of _ s]) simp
qed

section \<open>Backpressure on the inbound queue\<close>

lemma turns_histories_invariant:
  assumes "turns h evs s = Inr s'" and "P sent taken s"
      and "\<And>e sent taken s s'. P sent taken s \<Longrightarrow> turn h e s = Inr s' \<Longrightarrow>
             P (sent @ server_sent [e]) (taken @ taken_in_turn e s s') s'"
  shows "P (sent @ server_sent evs) (taken @ inbound_taken h evs s) s'"
  using assms(1,2)
proof (induction evs arbitrary: sent taken s)
  case Nil
  then show ?case by simp
next
  case (Cons e es)
  from Cons.prems(1) obtain s1 where s1: "turn h e s = Inr s1" "turns h es s1 = Inr s'"
    by (auto split: sum.splits)
  from assms(3)[OF Cons.prems(2) s1(1)]
  have "P (sent @ server_sent [e]) (taken @ taken_in_turn e s s1) s1" .
  from Cons.IH[OF s1(2) this]
  have "P ((sent @ server_sent [e]) @ server_sent es)
          ((taken @ taken_in_turn e s s1) @ inbound_taken h es s1) s'" .
  moreover have "server_sent (e # es) = server_sent [e] @ server_sent es"
    using server_sent_append[of "[e]" es] by simp
  moreover have "inbound_taken h (e # es) s = taken_in_turn e s s1 @ inbound_taken h es s1"
    using s1(1) by simp
  ultimately show ?case by simp
qed

lemma sched_next_forwards:
  assumes "ClientScheduler_next ch q sc = Inr (sc', ch', q')"
  shows "\<exists>new. ch = new @ ch'
     \<and> non_null (items q') @ not_yet_put sc'
         = non_null (items q) @ not_yet_put sc @ concat (map (map Task_unpack) (non_null new))"
proof (cases "sched_state sc")
  case Sched_GET_REMOTE
  show ?thesis
  proof (cases ch)
    case Nil
    with Sched_GET_REMOTE assms show ?thesis
      by (auto simp: scheduler_defs not_yet_put_def)
  next
    case (Cons m rest)
    with Sched_GET_REMOTE assms have "ch = [m] @ ch'
       \<and> non_null (items q') @ not_yet_put sc'
         = non_null (items q) @ not_yet_put sc @ concat (map (map Task_unpack) (non_null [m]))"
      by (cases m) (auto simp: scheduler_defs not_yet_put_def)
    then show ?thesis by blast
  qed
next
  case Sched_UNPACK
  with assms have "ch = [] @ ch'
       \<and> non_null (items q') @ not_yet_put sc'
         = non_null (items q) @ not_yet_put sc @ concat (map (map Task_unpack) (non_null []))"
    by (auto simp: scheduler_defs not_yet_put_def Let_def split: option.splits if_splits)
  then show ?thesis by blast
next
  case Sched_POP_TASK
  with assms have "ch = [] @ ch'
       \<and> non_null (items q') @ not_yet_put sc'
         = non_null (items q) @ not_yet_put sc @ concat (map (map Task_unpack) (non_null []))"
    by (auto simp: scheduler_defs not_yet_put_def split: list.splits)
  then show ?thesis by blast
next
  case Sched_PUT_LOCAL
  with assms have "ch = [] @ ch'
       \<and> non_null (items q') @ not_yet_put sc'
         = non_null (items q) @ not_yet_put sc @ concat (map (map Task_unpack) (non_null []))"
    by (auto simp: scheduler_defs not_yet_put_def Queue_put_def non_null_append
          split: option.splits if_splits)
  then show ?thesis by blast
next
  case Sched_START
  with assms have "ch = [] @ ch'
       \<and> non_null (items q') @ not_yet_put sc'
         = non_null (items q) @ not_yet_put sc @ concat (map (map Task_unpack) (non_null []))"
    by (auto simp: scheduler_defs not_yet_put_def)
  then show ?thesis by blast
next
  case Sched_HALT
  with assms have "ch = [] @ ch'
       \<and> non_null (items q') @ not_yet_put sc'
         = non_null (items q) @ not_yet_put sc @ concat (map (map Task_unpack) (non_null []))"
    by (auto simp: scheduler_defs not_yet_put_def)
  then show ?thesis by blast
qed

lemma exec_next_inbound:
  assumes "TaskExecutor_next h now sp w qi qo ex = Inr (ex', qi', qo')"
  shows "take (length (items qi) - length (items qi')) (items qi) @ items qi' = items qi"
  using assms
  by (cases "exec_state ex")
     (auto simp: executor_defs Let_def Queue_get_def Queue_put_def
        split: option.splits list.splits if_splits prod.splits sum.splits)

lemma forwarded_turn:
  assumes "forwarded sent taken s" and "turn h e s = Inr s'"
  shows "forwarded (sent @ server_sent [e]) (taken @ taken_in_turn e s s') s'"
proof -
  from assms(1) obtain rcv where rcv: "sent = rcv @ scheduled s"
    "non_null (taken @ items (inbound s)) @ not_yet_put (scheduler s)
       = concat (map (map Task_unpack) (non_null rcv))"
    by (auto simp: forwarded_def)
  from assms(2) show ?thesis
  proof (cases rule: turn_cases)
    case (Server m)
    with rcv show ?thesis by (auto simp: forwarded_def)
  next
    case (Scheduler sc ch q)
    from sched_next_forwards[OF Scheduler(3)] obtain new where new:
      "scheduled s = new @ ch"
      "non_null (items q) @ not_yet_put sc
         = non_null (items (inbound s)) @ not_yet_put (scheduler s)
             @ concat (map (map Task_unpack) (non_null new))"
      by blast
    from rcv(1) new(1) have "sent = (rcv @ new) @ ch" by simp
    moreover from rcv(2) new(2)
    have "non_null (taken @ items q) @ not_yet_put sc
            = concat (map (map Task_unpack) (non_null (rcv @ new)))"
      by (simp add: non_null_append)
    ultimately show ?thesis using Scheduler(1,4)
      unfolding forwarded_def by (intro exI[of _ "rcv @ new"]) simp
  next
    case (Executor i now sp w ex qi qo)
    from exec_next_inbound[OF Executor(4)] Executor(1,5)
    have "taken_in_turn e s s' @ items (inbound s') = items (inbound s)" by simp
    then have "(taken @ taken_in_turn e s s') @ items (inbound s') = taken @ items (inbound s)"
      by simp
    with rcv Executor(1,5) show ?thesis
      unfolding forwarded_def by (intro exI[of _ rcv]) simp
  next
    case Client
    from Client(2) have "non_null (items (inbound s')) = non_null (items (inbound s))"
      by (auto simp: client_defs Queue_put_def non_null_append
            split: run_position.splits if_splits option.splits)
    with rcv Client(1) run_position_effect[OF Client(2)] show ?thesis
      unfolding forwarded_def by (intro exI[of _ rcv]) (simp add: non_null_append)
  qed (use rcv in \<open>auto simp: forwarded_def\<close>)
qed

lemma forwarded_run:
  assumes "turns h evs (ClientThread_init D n bs bw tpl) = Inr s"
  shows "forwarded (server_sent evs) (inbound_taken h evs (ClientThread_init D n bs bw tpl)) s"
proof -
  have "forwarded [] [] (ClientThread_init D n bs bw tpl)"
    by (simp add: forwarded_def ClientThread_init_def not_yet_put_def
          ClientScheduler_init_def Queue_new_def)
  from turns_histories_invariant[of h evs _ s forwarded "[]" "[]", OF assms this forwarded_turn]
  show ?thesis by simp
qed

text \<open>
  Claim C9. In every run of the client that no exception ends, the tasks that have been on
  \<^verbatim>\<open>inbound\<close> (taken by an executor or waiting there), in the order they were put,
  followed by the tasks the scheduler has received and not yet put, are the tasks of the
  bundles received, in the server's order: none is dropped, repeated or moved. The
  scheduler's turn in \<^verbatim>\<open>PUT_LOCAL\<close> on a full queue changes nothing (it stays in
  \<^verbatim>\<open>PUT_LOCAL\<close> with the same task), and on a queue with room it puts that task at the
  tail and goes to \<^verbatim>\<open>POP_TASK\<close>.
\<close>

theorem backpressure_keeps_tasks:
  assumes "turns h evs (ClientThread_init D n bs bw tpl) = Inr s"
  shows "non_null (inbound_taken h evs (ClientThread_init D n bs bw tpl) @ items (inbound s))
           @ not_yet_put (scheduler s)
         = concat (map (map Task_unpack) (non_null (received evs s)))
     \<and> (sched_state (scheduler s) = Sched_PUT_LOCAL \<and> sched_task (scheduler s) = Some t
          \<and> position s \<noteq> At_start_threads \<longrightarrow>
        turn h Scheduler_turn s =
          Inr (if Queue_full (inbound s) then s
               else s\<lparr>scheduler := (scheduler s)\<lparr>sched_state := Sched_POP_TASK\<rparr>,
                       inbound := (inbound s)\<lparr>items := items (inbound s) @ [Some t]\<rparr>\<rparr>))"
proof -
  from forwarded_run[OF assms] obtain rcv where rcv: "server_sent evs = rcv @ scheduled s"
    "non_null (inbound_taken h evs (ClientThread_init D n bs bw tpl) @ items (inbound s))
       @ not_yet_put (scheduler s) = concat (map (map Task_unpack) (non_null rcv))"
    by (auto simp: forwarded_def)
  from received_eq[OF rcv(1)] rcv(2)
  have a: "non_null (inbound_taken h evs (ClientThread_init D n bs bw tpl) @ items (inbound s))
           @ not_yet_put (scheduler s)
         = concat (map (map Task_unpack) (non_null (received evs s)))"
    by simp
  have b: "sched_state (scheduler s) = Sched_PUT_LOCAL \<and> sched_task (scheduler s) = Some t
          \<and> position s \<noteq> At_start_threads \<longrightarrow>
        turn h Scheduler_turn s =
          Inr (if Queue_full (inbound s) then s
               else s\<lparr>scheduler := (scheduler s)\<lparr>sched_state := Sched_POP_TASK\<rparr>,
                       inbound := (inbound s)\<lparr>items := items (inbound s) @ [Some t]\<rparr>\<rparr>)"
    by (auto simp: turn.simps scheduler_defs Queue_put_def)
  from a b show ?thesis by blast
qed

theorem backpressure_keeps_tasks_witness:
  "\<exists>s1 s.
      turns ''node1'' (take 10 backpressure_run) (ClientThread_init 1 1 3 3600 ''{}'') = Inr s1
    \<and> sched_state (scheduler s1) = Sched_PUT_LOCAL
    \<and> sched_task (scheduler s1) = Some (Task_new ''t2'' ''false'')
    \<and> position s1 \<noteq> At_start_threads
    \<and> items (inbound s1) = [Some (Task_new ''t1'' ''true'')] \<and> Queue_full (inbound s1)
    \<and> turn ''node1'' Scheduler_turn s1 = Inr s1
    \<and> turns ''node1'' backpressure_run (ClientThread_init 1 1 3 3600 ''{}'') = Inr s
    \<and> received backpressure_run s
        = [Some [Packed (Task_new ''t1'' ''true''), Packed (Task_new ''t2'' ''false'')]]
    \<and> inbound_taken ''node1'' backpressure_run (ClientThread_init 1 1 3 3600 ''{}'')
        = [Some (Task_new ''t1'' ''true'')]
    \<and> items (inbound s) = [Some (Task_new ''t2'' ''false'')]
    \<and> not_yet_put (scheduler s) = []"
proof -
  have "case turns ''node1'' (take 10 backpressure_run) (ClientThread_init 1 1 3 3600 ''{}'') of
          Inl e \<Rightarrow> False
        | Inr s1 \<Rightarrow> sched_state (scheduler s1) = Sched_PUT_LOCAL
            \<and> sched_task (scheduler s1) = Some (Task_new ''t2'' ''false'')
            \<and> position s1 \<noteq> At_start_threads
            \<and> items (inbound s1) = [Some (Task_new ''t1'' ''true'')] \<and> Queue_full (inbound s1)"
    by code_simp
  then obtain s1 where s1:
      "turns ''node1'' (take 10 backpressure_run) (ClientThread_init 1 1 3 3600 ''{}'') = Inr s1"
      "sched_state (scheduler s1) = Sched_PUT_LOCAL"
      "sched_task (scheduler s1) = Some (Task_new ''t2'' ''false'')"
      "position s1 \<noteq> At_start_threads"
      "items (inbound s1) = [Some (Task_new ''t1'' ''true'')]" "Queue_full (inbound s1)"
    by (auto split: sum.splits)
  have "case turns ''node1'' backpressure_run (ClientThread_init 1 1 3 3600 ''{}'') of
          Inl e \<Rightarrow> False
        | Inr s \<Rightarrow> received backpressure_run s
              = [Some [Packed (Task_new ''t1'' ''true''), Packed (Task_new ''t2'' ''false'')]]
            \<and> items (inbound s) = [Some (Task_new ''t2'' ''false'')]"
    by code_simp
  then obtain s where s:
      "turns ''node1'' backpressure_run (ClientThread_init 1 1 3 3600 ''{}'') = Inr s"
      "received backpressure_run s
         = [Some [Packed (Task_new ''t1'' ''true''), Packed (Task_new ''t2'' ''false'')]]"
      "items (inbound s) = [Some (Task_new ''t2'' ''false'')]"
    by (auto split: sum.splits)
  have taken: "inbound_taken ''node1'' backpressure_run (ClientThread_init 1 1 3 3600 ''{}'')
        = [Some (Task_new ''t1'' ''true'')]"
    by code_simp
  from backpressure_keeps_tasks[OF s1(1), of "Task_new ''t2'' ''false''"] s1(2,3,4,6)
  have loop: "turn ''node1'' Scheduler_turn s1 = Inr s1" by simp
  from backpressure_keeps_tasks[OF s(1)] s(2,3) taken
  have "not_yet_put (scheduler s) = []" by simp
  with s1 s taken loop show ?thesis
    by (intro exI[of _ s1] exI[of _ s]) simp
qed

section \<open>Timestamps of forwarded tasks\<close>












end
